theory Spec2Isabelle
  imports Main
begin

section \<open>Email monitor (scripts/email\_monitor.py)\<close>

text \<open>
  A shallow embedding of the class \<open>EmailMonitor\<close>. Python \<open>str\<close> and \<open>bytes\<close> values
  are character lists, message identifiers (IMAP UIDs, parsed by the client library from
  the server's unsigned numbers) are natural numbers. Every call that leaves the process
  (IMAP commands, HTTP requests, file writes, sleeping, console output) is recorded as an
  action, and the answer of the outside world to such a call is an input of the model.
  A console line is recorded by its fixed text, without the pictograms and the values
  printed with it. File names follow \<open>posixpath\<close>. The handlers of the operating
  system's signals call \<open>stop()\<close> and then leave the process; what is modelled of them is
  the call of \<open>stop()\<close>, which arrives at one of the points where the loop reads the flag.
\<close>

subsection \<open>Library functions on file names\<close>

type_synonym bytes = string

text \<open>
  \<open>os.path.basename\<close> of \<open>posixpath\<close>: everything after the last slash
  (\<open>p[p.rfind('/') + 1:]\<close>).
\<close>

definition basename :: "string \<Rightarrow> string" where
  "basename p = rev (takeWhile (\<lambda>c. c \<noteq> CHR ''/'') (rev p))"

text \<open>The character class of \<open>re.sub(r'[<>:"|?*]', '_', s)\<close>.\<close>

definition dangerous_chars :: "char list" where
  "dangerous_chars = [CHR ''<'', CHR ''>'', CHR '':'', CHR 0x22, CHR ''|'', CHR ''?'', CHR ''*'']"

definition replace_dangerous :: "string \<Rightarrow> string" where
  "replace_dangerous s = map (\<lambda>c. if c \<in> set dangerous_chars then CHR ''_'' else c) s"

text \<open>
  \<open>re.sub(r'\.\.+', '.', s)\<close>: scanning from the left, a dot that is followed by a dot
  starts a match, the match takes the whole run of dots (the quantifier is greedy) and is
  replaced by one dot; every other character is copied.
\<close>

function collapse_dots :: "string \<Rightarrow> string" where
  "collapse_dots [] = []"
| "collapse_dots (c # cs) =
     (if c = CHR ''.'' \<and> (case cs of [] \<Rightarrow> False | d # _ \<Rightarrow> d = CHR ''.'')
      then CHR ''.'' # collapse_dots (dropWhile (\<lambda>x. x = CHR ''.'') cs)
      else c # collapse_dots cs)"
  by pat_completeness auto
termination
  by (relation "measure length") (auto simp: length_dropWhile_le le_imp_less_Suc)

text \<open>Lines 134 to 136 of \<open>process_new_email\<close>.\<close>

definition sanitize :: "string \<Rightarrow> string" where
  "sanitize filename = collapse_dots (replace_dangerous (basename filename))"

text \<open>
  \<open>os.path.splitext(p)[1]\<close> of \<open>posixpath\<close>: the suffix that starts at the last dot of
  the last path component, provided some character other than a dot precedes that dot in
  the component; otherwise the empty string.
\<close>

definition splitext_ext :: "string \<Rightarrow> string" where
  "splitext_ext p =
     (let comp = basename p;
          ext = rev (takeWhile (\<lambda>c. c \<noteq> CHR ''.'') (rev comp));
          stem = take (length comp - Suc (length ext)) comp
      in if CHR ''.'' \<in> set comp \<and> dropWhile (\<lambda>c. c = CHR ''.'') stem \<noteq> []
         then CHR ''.'' # ext else [])"

text \<open>\<open>str.lower\<close> on the ASCII letters; no other character lower-cases to an ASCII letter
  of the allow-list.\<close>

definition lower_char :: "char \<Rightarrow> char" where
  "lower_char c =
     (case map_of (zip ''ABCDEFGHIJKLMNOPQRSTUVWXYZ'' ''abcdefghijklmnopqrstuvwxyz'') c of
        Some l \<Rightarrow> l
      | None \<Rightarrow> c)"

definition lower :: "string \<Rightarrow> string" where
  "lower s = map lower_char s"

definition allowed_extensions :: "string list" where
  "allowed_extensions =
     [''.las'', ''.txt'', ''.csv'', ''.pdf'', ''.doc'', ''.docx'', ''.jpg'', ''.jpeg'', ''.png'']"

text \<open>A name contains the sequence \<open>..\<close>.\<close>

fun has_dotdot :: "string \<Rightarrow> bool" where
  "has_dotdot (a # b # cs) = ((a = CHR ''.'' \<and> b = CHR ''.'') \<or> has_dotdot (b # cs))"
| "has_dotdot cs = False"

definition size_limit :: nat where
  "size_limit = 100 * 1024 * 1024"


text \<open>\<open>str(n)\<close> for a non-negative integer: its decimal digits.\<close>

definition digit_char :: "nat \<Rightarrow> char" where
  "digit_char d = ''0123456789'' ! d"

fun str_nat :: "nat \<Rightarrow> string" where
  "str_nat n = (if n < 10 then [digit_char n] else str_nat (n div 10) @ [digit_char (n mod 10)])"

declare str_nat.simps [simp del]

text \<open>The value of a decimal digit.\<close>

definition digit_val :: "char \<Rightarrow> nat" where
  "digit_val ch = (of_char ch :: nat) - 48"

text \<open>\<open>str.strip()\<close>: white space is removed at both ends.\<close>

definition is_space :: "char \<Rightarrow> bool" where
  "is_space c = ((of_char c :: nat) \<in> set [9, 10, 11, 12, 13, 28, 29, 30, 31, 32, 133, 160])"

definition strip :: "string \<Rightarrow> string" where
  "strip s = rev (dropWhile is_space (rev (dropWhile is_space s)))"

subsection \<open>Messages\<close>

text \<open>
  What the code reads of an \<open>email.message.Message\<close>: two headers, the content type, the
  file name of the part (\<open>get_filename()\<close>, \<open>None\<close> when the part has none) and the
  payload, which is a list of sub-parts for a multipart message and data otherwise.
\<close>

record headers =
  hdr_subject :: "string option"
  hdr_from :: "string option"
  hdr_content_type :: string
  hdr_filename :: "string option"

datatype message = Leaf headers bytes | Multipart headers "message list"

fun msg_headers :: "message \<Rightarrow> headers" where
  "msg_headers (Leaf h b) = h"
| "msg_headers (Multipart h ps) = h"

fun is_multipart :: "message \<Rightarrow> bool" where
  "is_multipart (Leaf h b) = False"
| "is_multipart (Multipart h ps) = True"

text \<open>\<open>get_payload(decode=True)\<close> is \<open>None\<close> for a multipart message.\<close>

fun get_payload :: "message \<Rightarrow> bytes option" where
  "get_payload (Leaf h b) = Some b"
| "get_payload (Multipart h ps) = None"

definition get_filename :: "message \<Rightarrow> string option" where
  "get_filename p = hdr_filename (msg_headers p)"

definition get_content_type :: "message \<Rightarrow> string" where
  "get_content_type p = hdr_content_type (msg_headers p)"

text \<open>\<open>walk()\<close>: the message itself, then its sub-parts, depth first.\<close>

fun walk :: "message \<Rightarrow> message list" where
  "walk (Leaf h b) = [Leaf h b]"
| "walk (Multipart h ps) = Multipart h ps # concat (map walk ps)"

text \<open>The truth value of an optional string: \<open>None\<close> and the empty string are false.\<close>

fun truthy :: "string option \<Rightarrow> bool" where
  "truthy None = False"
| "truthy (Some s) = (s \<noteq> [])"

subsection \<open>Exceptions, the outside world, actions\<close>

text \<open>
  An exception is the class the \<open>except\<close> clauses tell apart and its text \<open>str(e)\<close>. The
  first five classes are the ones of the clause at line 288.
\<close>

datatype exn_class =
  SSLError | SSLEOFError | ConnectionResetError | TimeoutError | SocketTimeout | OtherException

datatype exn = Exn exn_class string

fun exn_str :: "exn \<Rightarrow> string" where
  "exn_str (Exn c msg) = msg"

fun is_transient :: "exn \<Rightarrow> bool" where
  "is_transient (Exn c msg) =
     (c = SSLError \<or> c = SSLEOFError \<or> c = ConnectionResetError \<or> c = TimeoutError \<or>
      c = SocketTimeout)"

datatype 'a outcome = Returns 'a | Raises exn

text \<open>The JSON body of the status report; the time stamp, whose key follows
  \<open>isRunning\<close>, is left out.\<close>

record status =
  isRunning :: bool
  lastError :: "string option"
  emailsProcessed :: "string option"

record entry =
  entry_uid :: string
  entry_from :: string
  entry_subject :: string
  entry_body :: string
  entry_attachments :: "string list"
  entry_replyStatus :: string

type_synonym session = nat

datatype fetched = RawBytes message | RawOther

datatype conn_out =
    Connected session
  | CtorFails exn
  | LoginFails session exn

text \<open>
  The answers of the outside world during one stretch of the run (the start-up, one cycle
  of the loop, the shutdown): the response to each request, and the moments at which a
  call of \<open>stop()\<close> from outside the loop arrives (before the loop condition, before an
  identifier of the batch, after some seconds of the wait). \<open>decode_utf8\<close> stands for
  \<open>bytes.decode("utf-8", errors="ignore")\<close>.
\<close>

record env =
  put_out :: "status \<Rightarrow> nat outcome"
  post_out :: "entry \<Rightarrow> nat outcome"
  write_out :: "string \<Rightarrow> exn option"
  connect_out :: conn_out
  logout_out :: "exn option"
  noop_out :: "exn option"
  search_out :: "nat list outcome"
  fetch_out :: "nat \<Rightarrow> fetched outcome"
  stop_head :: bool
  stop_before :: "nat \<Rightarrow> bool"
  stop_wait :: "nat option"
  decode_utf8 :: "bytes \<Rightarrow> string"

datatype action =
    Print string
  | Put status
  | Post entry
  | WriteFile string bytes
  | Sleep nat
  | ImapConnect
  | ImapLogout
  | ImapNoop
  | ImapSearch
  | ImapFetch nat

subsection \<open>The monitor\<close>

record monitor =
  running :: bool
  client :: "session option"
  last_uid :: nat
  email_user :: string
  email_password :: string

text \<open>\<open>update_status\<close>, lines 68 to 88. The body of the \<open>try\<close> statement ends with an
  exception when the request raises one; the handler catches every exception.\<close>

definition status_data :: "bool \<Rightarrow> string option \<Rightarrow> nat option \<Rightarrow> status" where
  "status_data is_running error emails_processed =
     \<lparr>isRunning = is_running,
      lastError = (if truthy error then error else None),
      emailsProcessed = map_option str_nat emails_processed\<rparr>"

definition update_status_try ::
  "env \<Rightarrow> monitor \<Rightarrow> bool \<Rightarrow> string option \<Rightarrow> nat option \<Rightarrow> exn option \<times> monitor \<times> action list"
where
  "update_status_try e m is_running error emails_processed =
     (let data = status_data is_running error emails_processed in
      case put_out e data of
        Raises ex \<Rightarrow> (Some ex, m, [Put data])
      | Returns code \<Rightarrow>
          if code = 200 then (None, m, [Put data, Print ''Status updated''])
          else (None, m, [Put data, Print ''Failed to update status'']))"

definition update_status ::
  "env \<Rightarrow> monitor \<Rightarrow> bool \<Rightarrow> string option \<Rightarrow> nat option \<Rightarrow> monitor \<times> action list"
where
  "update_status e m is_running error emails_processed =
     (case update_status_try e m is_running error emails_processed of
        (None, m', a) \<Rightarrow> (m', a)
      | (Some ex, m', a) \<Rightarrow> (m', a @ [Print ''Error updating status'']))"

text \<open>\<open>save_email_to_api\<close>, lines 90 to 102.\<close>

definition save_email_to_api :: "env \<Rightarrow> monitor \<Rightarrow> entry \<Rightarrow> bool \<times> monitor \<times> action list" where
  "save_email_to_api e m ent =
     (case post_out e ent of
        Raises ex \<Rightarrow> (False, m, [Post ent, Print ''Error saving email to API''])
      | Returns code \<Rightarrow>
          if code = 201 then (True, m, [Post ent, Print ''Email saved to database''])
          else (False, m, [Post ent, Print ''Failed to save email'']))"


subsection \<open>Extracting a message: \<open>process_new_email\<close>, lines 104 to 188\<close>

text \<open>The text body of a multipart message: the first part of type \<open>text/plain\<close> without
  a file name whose payload can be decoded (lines 113 to 119).\<close>

fun first_text_body :: "(bytes \<Rightarrow> string) \<Rightarrow> message list \<Rightarrow> string" where
  "first_text_body dec [] = []"
| "first_text_body dec (part # parts) =
     (if get_content_type part = ''text/plain'' \<and> \<not> truthy (get_filename part)
      then (case get_payload part of
              Some b \<Rightarrow> dec b
            | None \<Rightarrow> first_text_body dec parts)
      else first_text_body dec parts)"

definition extract_body :: "env \<Rightarrow> message \<Rightarrow> string" where
  "extract_body e msg =
     (if is_multipart msg then first_text_body (decode_utf8 e) (walk msg)
      else (case get_payload msg of Some b \<Rightarrow> decode_utf8 e b | None \<Rightarrow> []))"

text \<open>
  One pass through the body of the loop over the parts (lines 130 to 165), with the list
  \<open>attachments\<close> as it stands. The result is the exception that leaves the loop, if any,
  the new list, and the actions. \<open>len(payload)\<close> raises for a part without payload.
\<close>

definition fallback_name :: "string list \<Rightarrow> string" where
  "fallback_name attachments = ''attachment_'' @ str_nat (length attachments) @ ''.bin''"

definition save_attachment ::
  "env \<Rightarrow> message \<Rightarrow> string list \<Rightarrow> exn option \<times> string list \<times> action list"
where
  "save_attachment e part attachments =
     (case get_filename part of
        None \<Rightarrow> (None, attachments, [])
      | Some filename \<Rightarrow>
          if filename = [] then (None, attachments, [])
          else
            let safe_filename0 = sanitize filename;
                file_ext = lower (splitext_ext safe_filename0);
                safe_filename =
                  (if safe_filename0 = [] \<or> safe_filename0 \<in> set [''.'', ''..'']
                   then fallback_name attachments else safe_filename0)
            in
              if file_ext \<notin> set allowed_extensions
              then (None, attachments, [Print ''Skipping attachment: file type not allowed''])
              else
                (case get_payload part of
                   None \<Rightarrow> (Some (Exn OtherException ''object of type NoneType has no len()''),
                            attachments, [])
                 | Some payload \<Rightarrow>
                     if length payload > size_limit
                     then (None, attachments, [Print ''Skipping attachment: file too large''])
                     else
                       (case write_out e safe_filename of
                          None \<Rightarrow>
                            (None, attachments @ [safe_filename],
                             [WriteFile safe_filename payload, Print ''Saved attachment''] @
                             (if safe_filename \<noteq> filename then [Print ''(sanitized)''] else []))
                        | Some ex \<Rightarrow>
                            (None, attachments,
                             [WriteFile safe_filename payload, Print ''Error saving attachment'']))))"

fun save_attachments ::
  "env \<Rightarrow> message list \<Rightarrow> string list \<Rightarrow> exn option \<times> string list \<times> action list"
where
  "save_attachments e [] attachments = (None, attachments, [])"
| "save_attachments e (part # parts) attachments =
     (case save_attachment e part attachments of
        (Some ex, attachments', a) \<Rightarrow> (Some ex, attachments', a)
      | (None, attachments', a) \<Rightarrow>
          (case save_attachments e parts attachments' of
             (r, attachments'', a') \<Rightarrow> (r, attachments'', a @ a')))"

definition process_new_email ::
  "env \<Rightarrow> monitor \<Rightarrow> nat \<Rightarrow> message \<Rightarrow> bool \<times> monitor \<times> action list"
where
  "process_new_email e m uid msg =
     (let subject = (case hdr_subject (msg_headers msg) of Some v \<Rightarrow> v | None \<Rightarrow> ''No Subject'');
          sender = (case hdr_from (msg_headers msg) of Some v \<Rightarrow> v | None \<Rightarrow> ''Unknown'');
          body = extract_body e msg
      in
        case (if is_multipart msg then save_attachments e (walk msg) [] else (None, [], [])) of
          (Some ex, attachments, a) \<Rightarrow> (False, m, a @ [Print ''Error processing email''])
        | (None, attachments, a) \<Rightarrow>
            let ent = \<lparr>entry_uid = str_nat uid, entry_from = sender, entry_subject = subject,
                       entry_body = strip body, entry_attachments = attachments,
                       entry_replyStatus = ''pending''\<rparr>
            in (case save_email_to_api e m ent of
                  (True, m', a') \<Rightarrow> (True, m', a @ [Print ''Processing Email''] @ a')
                | (False, m', a') \<Rightarrow>
                    (False, m', a @ [Print ''Processing Email''] @ a' @ [Print ''Failed to save email''])))"

subsection \<open>The connection: \<open>connect\<close> and \<open>disconnect\<close>, lines 190 to 215\<close>

definition connect :: "env \<Rightarrow> monitor \<Rightarrow> bool \<times> monitor \<times> action list" where
  "connect e m =
     (case connect_out e of
        Connected c \<Rightarrow> (True, m\<lparr>client := Some c\<rparr>, [ImapConnect, Print ''Connected''])
      | CtorFails ex \<Rightarrow>
          (case update_status e m False (Some (exn_str ex)) None of
             (m', a) \<Rightarrow> (False, m', [ImapConnect, Print ''Connection failed''] @ a))
      | LoginFails c ex \<Rightarrow>
          (case update_status e (m\<lparr>client := Some c\<rparr>) False (Some (exn_str ex)) None of
             (m', a) \<Rightarrow> (False, m', [ImapConnect, Print ''Connection failed''] @ a)))"

definition disconnect :: "env \<Rightarrow> monitor \<Rightarrow> monitor \<times> action list" where
  "disconnect e m =
     (case client m of
        None \<Rightarrow> (m, [])
      | Some c \<Rightarrow>
          (m\<lparr>client := None\<rparr>,
           ImapLogout #
           (case logout_out e of
              None \<Rightarrow> [Print ''Disconnected from IMAP server'']
            | Some ex \<Rightarrow> [Print ''Error during disconnect''])))"

subsection \<open>\<open>stop\<close>, lines 308 to 316\<close>

definition stop :: "env \<Rightarrow> monitor \<Rightarrow> monitor \<times> action list" where
  "stop e m =
     (if \<not> running m then (m, [Print ''Monitor is not running''])
      else
        (case update_status e (m\<lparr>running := False\<rparr>) False None None of
           (m', a) \<Rightarrow> (m', Print ''Stopping email monitor...'' # a)))"

text \<open>A call of \<open>stop()\<close> that arrives from outside the loop, when one does.\<close>

definition deliver_stop :: "bool \<Rightarrow> env \<Rightarrow> monitor \<Rightarrow> monitor \<times> action list" where
  "deliver_stop arrives e m = (if arrives then stop e m else (m, []))"


subsection \<open>\<open>start\<close>, lines 217 to 306\<close>

text \<open>The state of the loop is the monitor and the local counter \<open>emails_processed\<close>.\<close>

type_synonym loop_state = "monitor \<times> nat"

text \<open>Line 237 and line 253.\<close>

definition baseline :: "nat list \<Rightarrow> nat" where
  "baseline all_messages = (if all_messages \<noteq> [] then Max (set all_messages) else 0)"

definition new_messages :: "nat list \<Rightarrow> nat \<Rightarrow> nat list" where
  "new_messages all_messages cursor = [uid \<leftarrow> all_messages. uid > cursor]"

text \<open>
  One pass through the body of the loop over the new identifiers (lines 257 to 278). It
  ends with \<open>break\<close> or goes on to the next identifier; the handler at line 277 catches
  every exception of the \<open>try\<close> statement.
\<close>

datatype flow = Next | Break

definition handle_uid :: "env \<Rightarrow> nat \<Rightarrow> loop_state \<Rightarrow> flow \<times> loop_state \<times> action list" where
  "handle_uid e uid st =
     (case st of (m0, n) \<Rightarrow>
      case deliver_stop (stop_before e uid) e m0 of (m, a0) \<Rightarrow>
        if \<not> running m then (Break, (m, n), a0)
        else
          (case client m of
             None \<Rightarrow> (Break, (m, n), a0)
           | Some c \<Rightarrow>
               (case fetch_out e uid of
                  Raises ex \<Rightarrow>
                    (Next, (m, n), a0 @ [ImapFetch uid, Print ''Error processing email''])
                | Returns RawOther \<Rightarrow>
                    (Next, (m, n), a0 @ [ImapFetch uid, Print ''Invalid email data type''])
                | Returns (RawBytes msg) \<Rightarrow>
                    (case process_new_email e m uid msg of
                       (True, m1, a1) \<Rightarrow>
                         (case update_status e m1 True None (Some (n + 1)) of
                            (m2, a2) \<Rightarrow>
                              (Next, (m2\<lparr>last_uid := max (last_uid m2) uid\<rparr>, n + 1),
                               a0 @ [ImapFetch uid] @ a1 @ a2))
                     | (False, m1, a1) \<Rightarrow>
                         (Next, (m1\<lparr>last_uid := max (last_uid m1) uid\<rparr>, n),
                          a0 @ [ImapFetch uid] @ a1)))))"

fun process_batch :: "env \<Rightarrow> nat list \<Rightarrow> loop_state \<Rightarrow> loop_state \<times> action list" where
  "process_batch e [] st = (st, [])"
| "process_batch e (uid # uids) st =
     (case handle_uid e uid st of
        (Break, st', a) \<Rightarrow> (st', a)
      | (Next, st', a) \<Rightarrow>
          (case process_batch e uids st' of (st'', a') \<Rightarrow> (st'', a @ a')))"

text \<open>The wait of lines 283 to 286: thirty sleeps of one second, left as soon as the
  flag is found cleared.\<close>

definition wait_poll :: "env \<Rightarrow> monitor \<Rightarrow> monitor \<times> action list" where
  "wait_poll e m =
     (if \<not> running m then (m, [])
      else
        (case stop_wait e of
           None \<Rightarrow> (m, replicate 30 (Sleep 1))
         | Some k \<Rightarrow>
             if k < 30
             then (case stop e m of (m', a) \<Rightarrow> (m', replicate k (Sleep 1) @ a))
             else (m, replicate 30 (Sleep 1))))"

text \<open>
  The \<open>try\<close> block of one cycle (lines 244 to 286). Only the keep-alive and the search can
  end it with an exception, and they do so before the state has changed.
\<close>

definition poll :: "env \<Rightarrow> loop_state \<Rightarrow> exn option \<times> loop_state \<times> action list" where
  "poll e st =
     (case st of (m, n) \<Rightarrow>
      case client m of
        None \<Rightarrow> (None, (m, n), [])
      | Some c \<Rightarrow>
          (case noop_out e of
             Some ex \<Rightarrow> (Some ex, (m, n), [ImapNoop])
           | None \<Rightarrow>
               (case search_out e of
                  Raises ex \<Rightarrow> (Some ex, (m, n), [ImapNoop, ImapSearch])
                | Returns all_messages \<Rightarrow>
                    (case (if new_messages all_messages (last_uid m) \<noteq> []
                           then process_batch e (sort (new_messages all_messages (last_uid m))) (m, n)
                           else ((m, n), [Print ''No new emails found''])) of
                       ((m1, n1), a1) \<Rightarrow>
                         (case wait_poll e m1 of
                            (m2, a2) \<Rightarrow> (None, (m2, n1), [ImapNoop, ImapSearch] @ a1 @ a2))))))"

text \<open>One cycle with the two handlers of lines 288 to 298.\<close>

definition cycle :: "env \<Rightarrow> loop_state \<Rightarrow> loop_state \<times> action list" where
  "cycle e st =
     (case poll e st of
        (None, st', a) \<Rightarrow> (st', a)
      | (Some ex, (m, n), a) \<Rightarrow>
          if is_transient ex
          then
            (case disconnect e m of
               (m1, a1) \<Rightarrow>
                 (case connect e m1 of
                    (ok, m2, a2) \<Rightarrow>
                      ((m2, n),
                       a @ [Print ''Transient IMAP/SSL error - reconnecting''] @ a1 @ [Sleep 5] @ a2 @
                       (if ok then [] else [Sleep 10]))))
          else
            (case update_status e m False (Some (exn_str ex)) None of
               (m1, a1) \<Rightarrow> ((m1, n), a @ [Print ''Error in monitoring loop''] @ a1 @ [Sleep 10])))"

text \<open>
  The loop \<open>while self.running\<close>, driven by the answers of the outside world cycle by cycle.
  The list is a finite stretch of a run that may go on for ever: when it is used up with
  the flag still set, the result is the state reached so far, inside the loop.
\<close>

fun run_loop :: "env list \<Rightarrow> loop_state \<Rightarrow> loop_state \<times> action list" where
  "run_loop [] st = (st, [])"
| "run_loop (e # es) st =
     (case st of (m0, n) \<Rightarrow>
      case deliver_stop (stop_head e) e m0 of (m, a0) \<Rightarrow>
        if \<not> running m then ((m, n), a0)
        else
          (case cycle e (m, n) of
             (st1, a1) \<Rightarrow> (case run_loop es st1 of (st2, a2) \<Rightarrow> (st2, a0 @ a1 @ a2))))"

text \<open>The \<open>finally\<close> clause, lines 303 to 306.\<close>

definition start_finally :: "env \<Rightarrow> monitor \<Rightarrow> monitor \<times> action list" where
  "start_finally e m =
     (case disconnect e m of
        (m1, a1) \<Rightarrow>
          (case update_status e (m1\<lparr>running := False\<rparr>) False None None of
             (m2, a2) \<Rightarrow> (m2, a1 @ a2)))"

text \<open>
  The \<open>try\<close> block of \<open>start\<close> with its handler (lines 231 to 302), once the connection
  is made. The first component tells whether control has left the block, so that the
  \<open>finally\<close> clause follows; it is false when the loop is still running at the end of
  the given cycles.
\<close>

definition start_try :: "env \<Rightarrow> env list \<Rightarrow> monitor \<Rightarrow> bool \<times> monitor \<times> action list" where
  "start_try e0 es m =
     (case client m of
        None \<Rightarrow> (True, m, [])
      | Some c \<Rightarrow>
          (case search_out e0 of
             Raises ex \<Rightarrow>
               (case update_status e0 m False (Some (exn_str ex)) None of
                  (m1, a1) \<Rightarrow>
                    (True, m1, [ImapSearch, Print ''Critical error in email monitor''] @ a1))
           | Returns all_messages \<Rightarrow>
               (case run_loop es (m\<lparr>last_uid := baseline all_messages\<rparr>, 0) of
                  ((m1, n), a1) \<Rightarrow>
                    (\<not> running m1, m1, [ImapSearch, Print ''Monitoring from UID''] @ a1))))"

text \<open>
  \<open>start\<close>, with the answers of the outside world during start-up (\<open>e0\<close>), during the
  cycles of the loop (\<open>es\<close>) and during the shutdown (\<open>ef\<close>).
\<close>

definition start :: "env \<Rightarrow> env list \<Rightarrow> env \<Rightarrow> monitor \<Rightarrow> monitor \<times> action list" where
  "start e0 es ef m =
     (if running m then (m, [Print ''Monitor is already running''])
      else
        (case update_status e0 (m\<lparr>running := True\<rparr>) True None None of
           (m1, a1) \<Rightarrow>
             (case connect e0 m1 of
                (False, m2, a2) \<Rightarrow>
                  (m2\<lparr>running := False\<rparr>, [Print ''Starting email monitor...''] @ a1 @ a2)
              | (True, m2, a2) \<Rightarrow>
                  (case start_try e0 es m2 of
                     (False, m3, a3) \<Rightarrow> (m3, [Print ''Starting email monitor...''] @ a1 @ a2 @ a3)
                   | (True, m3, a3) \<Rightarrow>
                       (case start_finally ef m3 of
                          (m4, a4) \<Rightarrow>
                            (m4, [Print ''Starting email monitor...''] @ a1 @ a2 @ a3 @ a4))))))"

subsection \<open>The command line: \<open>__init__\<close> and \<open>main\<close>\<close>

text \<open>The two environment variables the constructor requires, as \<open>os.getenv\<close> returns
  them. A result \<open>Inl c\<close> is \<open>sys.exit(c)\<close>.\<close>

record config =
  env_email_user :: "string option"
  env_email_password :: "string option"

definition init :: "config \<Rightarrow> (nat + monitor) \<times> action list" where
  "init cfg =
     (if \<not> truthy (env_email_user cfg) \<or> \<not> truthy (env_email_password cfg)
      then (Inl 1,
            [Print ''EMAIL_USER and EMAIL_PASSWORD environment variables are required'',
             Print ''Set them in your environment or .env file:'',
             Print ''export EMAIL_USER=...'',
             Print ''export EMAIL_PASSWORD=...'',
             Print (''EMAIL_USER: '' @ (if truthy (env_email_user cfg) then ''Found'' else ''Missing'')),
             Print (''EMAIL_PASSWORD: '' @
                    (if truthy (env_email_password cfg) then ''Found'' else ''Missing''))])
      else
        (Inr \<lparr>running = False, client = None, last_uid = 0,
              email_user = the (env_email_user cfg),
              email_password = the (env_email_password cfg)\<rparr>, []))"

definition main ::
  "string list \<Rightarrow> config \<Rightarrow> env \<Rightarrow> env list \<Rightarrow> env \<Rightarrow> (nat + monitor) \<times> action list"
where
  "main argv cfg e0 es ef =
     (if length argv \<noteq> 2 \<or> argv ! 1 \<notin> set [''start'', ''stop'']
      then (Inl 1,
            [Print ''Usage: python email_monitor.py [start|stop]'', Print [],
             Print ''Required environment variables:'',
             Print ''  EMAIL_USER     - Your email address (e.g., user@gmail.com)'',
             Print ''  EMAIL_PASSWORD - Your app password (not regular password)'', Print [],
             Print ''Optional environment variables:'',
             Print ''  IMAP_SERVER    - IMAP server (default: imap.gmail.com)'',
             Print ''  API_BASE_URL   - API base URL (default: http://localhost:5000/api)''])
      else
        (case init cfg of
           (Inl c, a) \<Rightarrow> (Inl c, a)
         | (Inr monitor, a) \<Rightarrow>
             if argv ! 1 = ''start''
             then (case start e0 es ef monitor of (m, a') \<Rightarrow> (Inr m, a @ a'))
             else if argv ! 1 = ''stop''
             then (case stop e0 monitor of (m, a') \<Rightarrow> (Inr m, a @ a'))
             else (Inr monitor, a)))"


subsection \<open>Reading a list of actions\<close>

text \<open>The identifiers fetched, the records handed to the API, the status reports sent
  and the IMAP sessions opened, in the order of the actions.\<close>

fun fetched_uids :: "action list \<Rightarrow> nat list" where
  "fetched_uids [] = []"
| "fetched_uids (ImapFetch uid # a) = uid # fetched_uids a"
| "fetched_uids (_ # a) = fetched_uids a"

fun posted :: "action list \<Rightarrow> entry list" where
  "posted [] = []"
| "posted (Post ent # a) = ent # posted a"
| "posted (_ # a) = posted a"

fun reports :: "action list \<Rightarrow> status list" where
  "reports [] = []"
| "reports (Put st # a) = st # reports a"
| "reports (_ # a) = reports a"

text \<open>Every identifier fetched and every record handed over belongs to an identifier
  above \<open>c\<close>.\<close>

definition above :: "nat \<Rightarrow> action list \<Rightarrow> bool" where
  "above c a =
     (list_all (\<lambda>uid. c < uid) (fetched_uids a) \<and>
      list_all (\<lambda>ent. list_ex (\<lambda>uid. entry_uid ent = str_nat uid) (fetched_uids a)) (posted a))"

subsection \<open>Example inputs\<close>

definition ex_headers :: headers where
  "ex_headers = \<lparr>hdr_subject = Some ''Logs'', hdr_from = None,
                  hdr_content_type = ''application/octet-stream'', hdr_filename = None\<rparr>"

text \<open>An outside world in which every request succeeds, the mailbox is empty and no
  call of \<open>stop()\<close> arrives.\<close>

definition ex_env :: env where
  "ex_env = \<lparr>put_out = (\<lambda>_. Returns 200), post_out = (\<lambda>_. Returns 201),
              write_out = (\<lambda>_. None), connect_out = Connected 1, logout_out = None,
              noop_out = None, search_out = Returns [], fetch_out = (\<lambda>_. Returns RawOther),
              stop_head = False, stop_before = (\<lambda>_. False), stop_wait = None,
              decode_utf8 = (\<lambda>b. b)\<rparr>"

definition ex_config :: config where
  "ex_config = \<lparr>env_email_user = Some ''user@example.org'', env_email_password = Some ''secret''\<rparr>"

definition ex_msg :: message where
  "ex_msg = Leaf (ex_headers\<lparr>hdr_content_type := ''text/plain''\<rparr>) ''hello''"

text \<open>A monitor inside the loop with the cursor at 10, and a new monitor.\<close>

definition ex_monitor :: monitor where
  "ex_monitor = \<lparr>running = True, client = Some 1, last_uid = 10,
                  email_user = ''user@example.org'', email_password = ''secret''\<rparr>"

definition ex_fresh :: monitor where
  "ex_fresh = \<lparr>running = False, client = None, last_uid = 0,
                email_user = ''user@example.org'', email_password = ''secret''\<rparr>"

text \<open>The mailbox holds 3, 7 and 10 at the start; later 11 has arrived.\<close>

definition ex_env_baseline :: env where
  "ex_env_baseline = ex_env\<lparr>search_out := Returns [3, 10, 7]\<rparr>"

definition ex_env_new :: env where
  "ex_env_new = ex_env\<lparr>search_out := Returns [10, 11],
                        fetch_out := (\<lambda>_. Returns (RawBytes ex_msg))\<rparr>"

text \<open>The API answers the hand-off with status 500.\<close>

definition ex_env_reject :: env where
  "ex_env_reject = ex_env_new\<lparr>post_out := (\<lambda>_. Returns 500)\<rparr>"

text \<open>The keep-alive raises an error that is not transient; the keep-alive times out;
  the fetch of a message times out.\<close>

definition ex_env_fault :: env where
  "ex_env_fault = ex_env\<lparr>noop_out := Some (Exn OtherException ''boom'')\<rparr>"

definition ex_env_timeout :: env where
  "ex_env_timeout = ex_env\<lparr>noop_out := Some (Exn SocketTimeout ''timed out''),
                            connect_out := CtorFails (Exn OtherException ''unreachable'')\<rparr>"

definition ex_env_fetch_timeout :: env where
  "ex_env_fetch_timeout = ex_env\<lparr>search_out := Returns [11],
                                  fetch_out := (\<lambda>_. Raises (Exn SocketTimeout ''timed out''))\<rparr>"



section \<open>Sanitizing file names\<close>

lemma basename_no_sep: "CHR ''/'' \<notin> set (basename p)"
  by (auto simp: basename_def dest: set_takeWhileD)

lemma basename_id: "CHR ''/'' \<notin> set s \<Longrightarrow> basename s = s"
proof -
  assume "CHR ''/'' \<notin> set s"
  then have h: "takeWhile (\<lambda>c. c \<noteq> CHR ''/'') (rev s) = rev s"
    by (auto simp: takeWhile_eq_all_conv)
  show ?thesis by (simp only: basename_def h rev_rev_ident)
qed


lemma replace_dangerous_free: "c \<in> set dangerous_chars \<Longrightarrow> c \<notin> set (replace_dangerous s)"
  by (auto simp: replace_dangerous_def dangerous_chars_def)

lemma replace_dangerous_no_sep: "CHR ''/'' \<notin> set s \<Longrightarrow> CHR ''/'' \<notin> set (replace_dangerous s)"
  by (auto simp: replace_dangerous_def)

lemma replace_dangerous_id: "set s \<inter> set dangerous_chars = {} \<Longrightarrow> replace_dangerous s = s"
  unfolding replace_dangerous_def by (induction s) auto

lemma set_collapse_dots: "set (collapse_dots s) \<subseteq> set s"
proof (induction s rule: collapse_dots.induct)
  case 1
  then show ?case by simp
next
  case (2 c cs)
  show ?case
  proof (cases "c = CHR ''.'' \<and> (case cs of [] \<Rightarrow> False | d # _ \<Rightarrow> d = CHR ''.'')")
    case True
    with 2 have "set (collapse_dots (dropWhile (\<lambda>x. x = CHR ''.'') cs)) \<subseteq> set cs"
      using set_dropWhileD by fastforce
    with True show ?thesis by auto
  next
    case False
    with 2 show ?thesis by auto
  qed
qed

lemma collapse_dots_hd: "collapse_dots s = c # r \<Longrightarrow> \<exists>t. s = c # t"
  by (cases s) (auto split: if_splits)

lemma dropWhile_dot_hd: "dropWhile (\<lambda>x. x = CHR ''.'') cs = c # t \<Longrightarrow> c \<noteq> CHR ''.''"
  using hd_dropWhile[of "\<lambda>x. x = CHR ''.''" cs] by auto

lemma has_dotdot_Cons: "has_dotdot (a # s) = ((a = CHR ''.'' \<and> (\<exists>t. s = CHR ''.'' # t)) \<or> has_dotdot s)"
  by (cases s) auto

lemma collapse_dots_no_dotdot: "\<not> has_dotdot (collapse_dots s)"
proof (induction s rule: collapse_dots.induct)
  case 1
  then show ?case by simp
next
  case (2 c cs)
  show ?case
  proof (cases "c = CHR ''.'' \<and> (case cs of [] \<Rightarrow> False | d # _ \<Rightarrow> d = CHR ''.'')")
    case True
    let ?r = "collapse_dots (dropWhile (\<lambda>x. x = CHR ''.'') cs)"
    from True 2 have ih: "\<not> has_dotdot ?r" by simp
    have "\<not> (\<exists>t. ?r = CHR ''.'' # t)"
    proof
      assume "\<exists>t. ?r = CHR ''.'' # t"
      then obtain t where "?r = CHR ''.'' # t" ..
      then obtain u where "dropWhile (\<lambda>x. x = CHR ''.'') cs = CHR ''.'' # u"
        using collapse_dots_hd by blast
      then show False using dropWhile_dot_hd by blast
    qed
    moreover from True have "collapse_dots (c # cs) = CHR ''.'' # ?r" by auto
    ultimately show ?thesis using ih by (simp add: has_dotdot_Cons)
  next
    case False
    with 2 have ih: "\<not> has_dotdot (collapse_dots cs)" by simp
    have "\<not> (c = CHR ''.'' \<and> (\<exists>t. collapse_dots cs = CHR ''.'' # t))"
    proof
      assume a: "c = CHR ''.'' \<and> (\<exists>t. collapse_dots cs = CHR ''.'' # t)"
      then obtain t where "collapse_dots cs = CHR ''.'' # t" by blast
      then obtain u where "cs = CHR ''.'' # u" using collapse_dots_hd by blast
      with a False show False by simp
    qed
    moreover from False have "collapse_dots (c # cs) = c # collapse_dots cs" by auto
    ultimately show ?thesis using ih by (simp add: has_dotdot_Cons)
  qed
qed

lemma collapse_dots_id: "\<not> has_dotdot s \<Longrightarrow> collapse_dots s = s"
proof (induction s rule: collapse_dots.induct)
  case 1
  then show ?case by simp
next
  case (2 c cs)
  from 2(3) have nd: "\<not> (c = CHR ''.'' \<and> (\<exists>t. cs = CHR ''.'' # t))" and r: "\<not> has_dotdot cs"
    by (simp_all add: has_dotdot_Cons)
  from nd have F: "\<not> (c = CHR ''.'' \<and> (case cs of [] \<Rightarrow> False | d # _ \<Rightarrow> d = CHR ''.''))"
    by (cases cs) auto
  with 2(2) r have "collapse_dots cs = cs" by simp
  moreover from F have "collapse_dots (c # cs) = c # collapse_dots cs" by auto
  ultimately show ?case by simp
qed

lemma has_dotdot_iff: "has_dotdot s \<longleftrightarrow> (\<exists>xs ys. s = xs @ ''..'' @ ys)"
proof (induction s rule: has_dotdot.induct)
  case (1 a b cs)
  show ?case
  proof
    assume "has_dotdot (a # b # cs)"
    then consider "a = CHR ''.'' \<and> b = CHR ''.''" | "has_dotdot (b # cs)" by auto
    then show "\<exists>xs ys. a # b # cs = xs @ ''..'' @ ys"
    proof cases
      case 1
      then have "a # b # cs = [] @ ''..'' @ cs" by simp
      then show ?thesis by blast
    next
      case 2
      with 1 obtain xs ys where "b # cs = xs @ ''..'' @ ys" by blast
      then have "a # b # cs = (a # xs) @ ''..'' @ ys" by simp
      then show ?thesis by blast
    qed
  next
    assume "\<exists>xs ys. a # b # cs = xs @ ''..'' @ ys"
    then obtain xs ys where e: "a # b # cs = xs @ ''..'' @ ys" by blast
    show "has_dotdot (a # b # cs)"
    proof (cases xs)
      case Nil
      with e show ?thesis by simp
    next
      case (Cons x xs')
      with e have "b # cs = xs' @ ''..'' @ ys" by simp
      then have "\<exists>xs ys. b # cs = xs @ ''..'' @ ys" by blast
      with 1 have "has_dotdot (b # cs)" by simp
      then show ?thesis by simp
    qed
  qed
qed (auto simp: append_eq_Cons_conv)

lemma sanitize_props:
  "CHR ''/'' \<notin> set (sanitize f)" "set (sanitize f) \<inter> set dangerous_chars = {}" "\<not> has_dotdot (sanitize f)"
proof -
  show "CHR ''/'' \<notin> set (sanitize f)"
    unfolding sanitize_def using set_collapse_dots replace_dangerous_no_sep[OF basename_no_sep] by blast
  show "set (sanitize f) \<inter> set dangerous_chars = {}"
    unfolding sanitize_def using set_collapse_dots replace_dangerous_free by blast
  show "\<not> has_dotdot (sanitize f)"
    unfolding sanitize_def by (rule collapse_dots_no_dotdot)
qed


text \<open>
  C5. For every file name the sanitized name contains no path separator and no sequence
  \<open>..\<close>, and sanitizing is idempotent: sanitizing the sanitized name gives it back
  unchanged.
\<close>

theorem sanitize_safe_idempotent:
  "CHR ''/'' \<notin> set (sanitize filename) \<and>
   \<not> (\<exists>xs ys. sanitize filename = xs @ ''..'' @ ys) \<and>
   sanitize (sanitize filename) = sanitize filename"
proof -
  let ?s = "sanitize filename"
  have "basename ?s = ?s" by (rule basename_id) (rule sanitize_props)
  moreover have "replace_dangerous ?s = ?s" by (rule replace_dangerous_id) (rule sanitize_props)
  moreover have "collapse_dots ?s = ?s" by (rule collapse_dots_id) (rule sanitize_props)
  ultimately have "sanitize ?s = ?s" by (simp add: sanitize_def)
  then show ?thesis using sanitize_props(1,3)[of filename] by (simp add: has_dotdot_iff)
qed

theorem sanitize_safe_idempotent_witness:
  "sanitize ''../../etc/passwd'' = ''passwd'' \<and>
   CHR ''/'' \<notin> set (sanitize ''../../etc/passwd'') \<and>
   \<not> (\<exists>xs ys. sanitize ''../../etc/passwd'' = xs @ ''..'' @ ys) \<and>
   sanitize (sanitize ''../../etc/passwd'') = sanitize ''../../etc/passwd''"
proof -
  have "sanitize ''../../etc/passwd'' = ''passwd''"
    by (simp add: sanitize_def basename_def replace_dangerous_def dangerous_chars_def)
  then show ?thesis using sanitize_safe_idempotent [of "''../../etc/passwd''"] by simp
qed

section \<open>Attachments\<close>

lemma splitext_ext_degenerate [simp]:
  "splitext_ext [] = []" "splitext_ext ''.'' = []" "splitext_ext ''..'' = []"
  by (simp_all add: splitext_ext_def basename_def)

lemma empty_not_allowed: "lower [] \<notin> set allowed_extensions"
  by (simp add: lower_def allowed_extensions_def)


text \<open>
  C9. A part whose sanitized file name is empty, \<open>.\<close> or \<open>..\<close> is never written, under
  no name: the extension is taken from the sanitized name before the generated name is
  put in its place, and it is not in the allow-list.
\<close>

theorem degenerate_name_never_written:
  assumes "get_filename part = Some filename" and "filename \<noteq> []"
    and "sanitize filename = [] \<or> sanitize filename = ''.'' \<or> sanitize filename = ''..''"
  shows "save_attachment e part attachments =
           (None, attachments, [Print ''Skipping attachment: file type not allowed'']) \<and>
         lower (splitext_ext (sanitize filename)) \<notin> set allowed_extensions \<and>
         WriteFile name data \<notin> set (snd (snd (save_attachment e part attachments)))"
proof -
  from assms(3) have ext: "lower (splitext_ext (sanitize filename)) \<notin> set allowed_extensions"
    using empty_not_allowed by auto
  with assms(1,2) have "save_attachment e part attachments =
           (None, attachments, [Print ''Skipping attachment: file type not allowed''])"
    by (simp add: save_attachment_def Let_def)
  with ext show ?thesis by simp
qed

theorem degenerate_name_never_written_witness:
  "get_filename (Leaf (ex_headers\<lparr>hdr_filename := Some ''logs/''\<rparr>) ''x'') = Some ''logs/'' \<and>
   ''logs/'' \<noteq> [] \<and> sanitize ''logs/'' = [] \<and>
   save_attachment ex_env (Leaf (ex_headers\<lparr>hdr_filename := Some ''logs/''\<rparr>) ''x'') [] =
     (None, [], [Print ''Skipping attachment: file type not allowed''])"
proof -
  have s: "sanitize ''logs/'' = []"
    by (simp add: sanitize_def basename_def replace_dangerous_def)
  have f: "get_filename (Leaf (ex_headers\<lparr>hdr_filename := Some ''logs/''\<rparr>) ''x'') = Some ''logs/''"
    by (simp add: get_filename_def)
  show ?thesis
    using degenerate_name_never_written [OF f, of ex_env "[]"] s f by simp
qed

section \<open>Status reports and \<open>stop\<close>\<close>

text \<open>
  C8. Whatever the request of the status report does (status 200, another status, an
  exception), \<open>update_status\<close> returns normally with the monitor unchanged; all it does
  is the one request and a console line.
\<close>

theorem update_status_frame:
  "fst (update_status e m is_running error emails_processed) = m \<and>
   (\<exists>line. update_status e m is_running error emails_processed =
      (m, [Put (status_data is_running error emails_processed), Print line]))"
  by (auto simp: update_status_def update_status_try_def Let_def split: outcome.splits)

theorem update_status_frame_witness:
  "update_status (ex_env\<lparr>put_out := (\<lambda>_. Raises (Exn OtherException ''refused''))\<rparr>)
      \<lparr>running = True, client = Some 1, last_uid = 10, email_user = ''u'', email_password = ''p''\<rparr>
      False (Some ''boom'') None =
    (\<lparr>running = True, client = Some 1, last_uid = 10, email_user = ''u'', email_password = ''p''\<rparr>,
     [Put \<lparr>isRunning = False, lastError = Some ''boom'', emailsProcessed = None\<rparr>,
      Print ''Error updating status''])"
  using update_status_frame [of "ex_env\<lparr>put_out := (\<lambda>_. Raises (Exn OtherException ''refused''))\<rparr>"
      "\<lparr>running = True, client = Some 1, last_uid = 10, email_user = ''u'', email_password = ''p''\<rparr>"
      False "Some ''boom''" None]
  by (simp add: update_status_def update_status_try_def status_data_def)

text \<open>
  C10. \<open>stop\<close> on a monitor whose flag is not set prints one line and does nothing else:
  no status report, the monitor unchanged. The command \<open>stop\<close> of the command line builds
  a new monitor, whose flag is not set, so it never sends a status report.
\<close>

theorem stop_idle_noop:
  "(\<not> running m \<longrightarrow> stop e m = (m, [Print ''Monitor is not running''])) \<and>
   Put st \<notin> set (snd (main [prog, ''stop''] cfg e0 es ef)) \<and>
   (\<forall>mon. fst (main [prog, ''stop''] cfg e0 es ef) = Inr mon \<longrightarrow>
      fst (init cfg) = Inr mon \<and> \<not> running mon)"
  by (auto simp: main_def init_def stop_def split: prod.splits sum.splits)

theorem stop_idle_noop_witness:
  "\<not> running \<lparr>running = False, client = None, last_uid = 0, email_user = ''u'', email_password = ''p''\<rparr> \<and>
   stop ex_env \<lparr>running = False, client = None, last_uid = 0, email_user = ''u'', email_password = ''p''\<rparr> =
     (\<lparr>running = False, client = None, last_uid = 0, email_user = ''u'', email_password = ''p''\<rparr>,
      [Print ''Monitor is not running'']) \<and>
   main [''email_monitor.py'', ''stop''] ex_config ex_env [] ex_env =
     (Inr \<lparr>running = False, client = None, last_uid = 0, email_user = ''user@example.org'',
           email_password = ''secret''\<rparr>, [Print ''Monitor is not running''])"
  using stop_idle_noop [of "\<lparr>running = False, client = None, last_uid = 0, email_user = ''u'', email_password = ''p''\<rparr>"
      ex_env]
  by (simp add: main_def init_def stop_def ex_config_def)

section \<open>The run loop\<close>

subsection \<open>Lists of actions\<close>

lemma fetched_uids_append [simp]: "fetched_uids (a @ b) = fetched_uids a @ fetched_uids b"
  by (induction a rule: fetched_uids.induct) auto

lemma posted_append [simp]: "posted (a @ b) = posted a @ posted b"
  by (induction a rule: posted.induct) auto

lemma reports_append [simp]: "reports (a @ b) = reports a @ reports b"
  by (induction a rule: reports.induct) auto

lemma fetched_uids_replicate_Sleep [simp]: "fetched_uids (replicate k (Sleep d)) = []"
  by (induction k) auto

lemma posted_replicate_Sleep [simp]: "posted (replicate k (Sleep d)) = []"
  by (induction k) auto

lemma above_silent: "fetched_uids a = [] \<Longrightarrow> posted a = [] \<Longrightarrow> above c a"
  by (simp add: above_def)

lemma above_append: "above c a \<Longrightarrow> above c b \<Longrightarrow> above c (a @ b)"
  by (auto simp: above_def list_all_iff list_ex_iff)

lemma above_mono: "above c a \<Longrightarrow> c' \<le> c \<Longrightarrow> above c' a"
  by (auto simp: above_def list_all_iff)

subsection \<open>What each method does to the monitor and which requests it makes\<close>

lemma update_status_result:
  "\<exists>line. update_status e m is_running error emails_processed =
     (m, [Put (status_data is_running error emails_processed), Print line])"
  by (auto simp: update_status_def update_status_try_def Let_def split: outcome.splits)

lemma save_email_to_api_result:
  "\<exists>line. save_email_to_api e m ent = (post_out e ent = Returns 201, m, [Post ent, Print line])"
  by (auto simp: save_email_to_api_def split: outcome.splits)

lemma save_attachment_silent:
  "save_attachment e part atts = (r, atts', a) \<Longrightarrow> fetched_uids a = [] \<and> posted a = [] \<and> reports a = []"
  by (auto simp: save_attachment_def Let_def split: option.splits if_splits)

lemma save_attachments_silent:
  "save_attachments e parts atts = (r, atts', a) \<Longrightarrow> fetched_uids a = [] \<and> posted a = [] \<and> reports a = []"
proof (induction parts arbitrary: atts r atts' a)
  case Nil
  then show ?case by simp
next
  case (Cons part parts)
  obtain r1 atts1 a1 where s1: "save_attachment e part atts = (r1, atts1, a1)"
    by (cases "save_attachment e part atts") auto
  note q1 = save_attachment_silent[OF s1]
  show ?case
  proof (cases r1)
    case (Some ex)
    with Cons.prems s1 q1 show ?thesis by auto
  next
    case None
    obtain r2 atts2 a2 where s2: "save_attachments e parts atts1 = (r2, atts2, a2)"
      by (cases "save_attachments e parts atts1") auto
    from Cons.IH[OF s2] Cons.prems s1 s2 q1 None show ?thesis by auto
  qed
qed

lemma process_new_email_result:
  assumes "process_new_email e m uid msg = (ok, m', a)"
  shows "m' = m \<and> fetched_uids a = [] \<and> reports a = [] \<and>
         (\<forall>ent \<in> set (posted a). entry_uid ent = str_nat uid) \<and>
         (ok \<longleftrightarrow> (\<exists>ent. posted a = [ent] \<and> post_out e ent = Returns 201))"
proof -
  obtain r atts a1 where s: "(if is_multipart msg then save_attachments e (walk msg) [] else (None, [], [])) = (r, atts, a1)"
    by (cases "(if is_multipart msg then save_attachments e (walk msg) [] else (None, [], []))") auto
  have q: "fetched_uids a1 = [] \<and> posted a1 = [] \<and> reports a1 = []"
    using s save_attachments_silent by (auto split: if_splits)
  show ?thesis
  proof (cases r)
    case (Some ex)
    with assms s q show ?thesis by (auto simp: process_new_email_def Let_def)
  next
    case None
    let ?ent = "\<lparr>entry_uid = str_nat uid,
        entry_from = (case hdr_from (msg_headers msg) of Some v \<Rightarrow> v | None \<Rightarrow> ''Unknown''),
        entry_subject = (case hdr_subject (msg_headers msg) of Some v \<Rightarrow> v | None \<Rightarrow> ''No Subject''),
        entry_body = strip (extract_body e msg), entry_attachments = atts,
        entry_replyStatus = ''pending''\<rparr>"
    obtain line where p: "save_email_to_api e m ?ent = (post_out e ?ent = Returns 201, m, [Post ?ent, Print line])"
      using save_email_to_api_result by blast
    from assms s q None p show ?thesis
      by (cases "post_out e ?ent = Returns 201") (auto simp: process_new_email_def Let_def)
  qed
qed

lemma stop_result:
  "\<exists>a. stop e m = (m\<lparr>running := False\<rparr>, a) \<and> fetched_uids a = [] \<and> posted a = []"
proof (cases "running m")
  case False
  then show ?thesis by (simp add: stop_def)
next
  case True
  obtain line where "update_status e (m\<lparr>running := False\<rparr>) False None None =
     (m\<lparr>running := False\<rparr>, [Put (status_data False None None), Print line])"
    using update_status_result by blast
  with True show ?thesis by (simp add: stop_def)
qed

lemma deliver_stop_result:
  "\<exists>a. deliver_stop b e m = (if b then m\<lparr>running := False\<rparr> else m, a) \<and>
        fetched_uids a = [] \<and> posted a = []"
  using stop_result[of e m] by (auto simp: deliver_stop_def)

lemma connect_result:
  assumes "connect e m = (ok, m', a)"
  shows "last_uid m' = last_uid m \<and> running m' = running m \<and> fetched_uids a = [] \<and>
         posted a = [] \<and> (ok \<longleftrightarrow> (\<exists>s. connect_out e = Connected s)) \<and>
         (ok \<longrightarrow> client m' \<noteq> None)"
proof (cases "connect_out e")
  case (Connected s)
  with assms show ?thesis by (auto simp: connect_def)
next
  case (CtorFails ex)
  obtain line where "update_status e m False (Some (exn_str ex)) None =
      (m, [Put (status_data False (Some (exn_str ex)) None), Print line])"
    using update_status_result by blast
  with CtorFails assms show ?thesis by (auto simp: connect_def)
next
  case (LoginFails s ex)
  obtain line where "update_status e (m\<lparr>client := Some s\<rparr>) False (Some (exn_str ex)) None =
      (m\<lparr>client := Some s\<rparr>, [Put (status_data False (Some (exn_str ex)) None), Print line])"
    using update_status_result by blast
  with LoginFails assms show ?thesis by (auto simp: connect_def)
qed

lemma disconnect_result:
  "\<exists>a. disconnect e m = (m\<lparr>client := None\<rparr>, a) \<and> fetched_uids a = [] \<and> posted a = [] \<and> reports a = []"
  by (cases "client m") (auto simp: disconnect_def split: option.splits)

subsection \<open>One identifier, one batch, the wait\<close>

lemma handle_uid_result:
  assumes "handle_uid e uid (m, n) = (f, (m', n'), a)"
  shows "last_uid m \<le> last_uid m' \<and> (c < uid \<longrightarrow> above c a) \<and> (running m' \<longrightarrow> running m)"
proof -
  obtain a0 where d: "deliver_stop (stop_before e uid) e m =
      (if stop_before e uid then m\<lparr>running := False\<rparr> else m, a0)"
    and s0: "fetched_uids a0 = []" "posted a0 = []"
    using deliver_stop_result by blast
  let ?m = "if stop_before e uid then m\<lparr>running := False\<rparr> else m"
  have lm: "last_uid ?m = last_uid m" "running ?m \<longrightarrow> running m" by auto
  show ?thesis
  proof (cases "running ?m \<and> client ?m \<noteq> None")
    case False
    with assms d have "m' = ?m" "a = a0"
      by (auto simp: handle_uid_def split: if_splits option.splits)
    with lm s0 show ?thesis by (simp add: above_silent)
  next
    case True
    then obtain cl where cl: "client ?m = Some cl" and r: "running ?m" by auto
    show ?thesis
    proof (cases "fetch_out e uid")
      case (Raises ex)
      with assms d cl r have "m' = ?m" "a = a0 @ [ImapFetch uid, Print ''Error processing email'']"
        by (auto simp: handle_uid_def)
      with lm s0 show ?thesis by (simp add: above_def)
    next
      case (Returns raw)
      show ?thesis
      proof (cases raw)
        case RawOther
        with Returns assms d cl r have "m' = ?m" "a = a0 @ [ImapFetch uid, Print ''Invalid email data type'']"
          by (auto simp: handle_uid_def)
        with lm s0 show ?thesis by (simp add: above_def)
      next
        case (RawBytes msg)
        obtain ok m1 a1 where p: "process_new_email e ?m uid msg = (ok, m1, a1)"
          by (cases "process_new_email e ?m uid msg") auto
        note q = process_new_email_result[OF p]
        obtain line where u: "update_status e m1 True None (Some (n + 1)) =
            (m1, [Put (status_data True None (Some (n + 1))), Print line])"
          using update_status_result by blast
        from RawBytes Returns assms d cl r p u
        have m': "m' = ?m\<lparr>last_uid := max (last_uid ?m) uid\<rparr>"
          and a: "a = a0 @ [ImapFetch uid] @ a1 @
                   (if ok then [Put (status_data True None (Some (n + 1))), Print line] else [])"
          using q by (auto simp: handle_uid_def)
        from a s0 q have "fetched_uids a = [uid]" "\<forall>ent \<in> set (posted a). entry_uid ent = str_nat uid"
          by auto
        then have "c < uid \<longrightarrow> above c a"
          by (auto simp: above_def list_all_iff)
        with m' lm show ?thesis by auto
      qed
    qed
  qed
qed

lemma handle_uid_advance:
  assumes "running m" and "client m = Some cl" and "\<not> stop_before e uid"
  shows "handle_uid e uid (m, n) =
     (case fetch_out e uid of
        Raises ex \<Rightarrow> (Next, (m, n), [ImapFetch uid, Print ''Error processing email''])
      | Returns RawOther \<Rightarrow> (Next, (m, n), [ImapFetch uid, Print ''Invalid email data type''])
      | Returns (RawBytes msg) \<Rightarrow>
          (case process_new_email e m uid msg of
             (ok, m1, a1) \<Rightarrow>
               (Next, (m\<lparr>last_uid := max (last_uid m) uid\<rparr>, if ok then n + 1 else n),
                [ImapFetch uid] @ a1 @ (if ok then snd (update_status e m True None (Some (n + 1))) else []))))"
proof (cases "fetch_out e uid")
  case (Raises ex)
  with assms show ?thesis by (simp add: handle_uid_def deliver_stop_def)
next
  case (Returns raw)
  show ?thesis
  proof (cases raw)
    case RawOther
    with Returns assms show ?thesis by (simp add: handle_uid_def deliver_stop_def)
  next
    case (RawBytes msg)
    obtain ok m1 a1 where p: "process_new_email e m uid msg = (ok, m1, a1)"
      by (cases "process_new_email e m uid msg") auto
    from process_new_email_result[OF p] have m1: "m1 = m" by simp
    obtain line where u: "update_status e m True None (Some (n + 1)) =
        (m, [Put (status_data True None (Some (n + 1))), Print line])"
      using update_status_result by blast
    from RawBytes Returns assms p m1 u show ?thesis
      by (cases ok) (simp_all add: handle_uid_def deliver_stop_def)
  qed
qed

lemma process_batch_result:
  assumes "process_batch e uids (m, n) = ((m', n'), a)" and "\<forall>uid \<in> set uids. c < uid"
  shows "last_uid m \<le> last_uid m' \<and> above c a \<and> (running m' \<longrightarrow> running m)"
  using assms
proof (induction uids arbitrary: m n m' n' a)
  case Nil
  then show ?case by (simp add: above_silent)
next
  case (Cons uid uids)
  obtain f m1 n1 a1 where h: "handle_uid e uid (m, n) = (f, (m1, n1), a1)"
    by (cases "handle_uid e uid (m, n)") auto
  from handle_uid_result[OF h, of c] Cons.prems(2)
  have h1: "last_uid m \<le> last_uid m1" "above c a1" "running m1 \<longrightarrow> running m" by auto
  show ?case
  proof (cases f)
    case Break
    with Cons.prems(1) h have "m' = m1" "a = a1" by auto
    with h1 show ?thesis by simp
  next
    case Next
    obtain m2 n2 a2 where b: "process_batch e uids (m1, n1) = ((m2, n2), a2)"
      by (cases "process_batch e uids (m1, n1)") auto
    from Cons.IH[OF b] Cons.prems(2)
    have b1: "last_uid m1 \<le> last_uid m2" "above c a2" "running m2 \<longrightarrow> running m1" by auto
    from Next Cons.prems(1) h b have "m' = m2" "a = a1 @ a2" by auto
    with h1 b1 show ?thesis by (auto intro: above_append)
  qed
qed

lemma wait_poll_result:
  assumes "wait_poll e m = (m', a)"
  shows "last_uid m' = last_uid m \<and> fetched_uids a = [] \<and> posted a = [] \<and> (running m' \<longrightarrow> running m)"
proof -
  obtain a0 where "stop e m = (m\<lparr>running := False\<rparr>, a0)" "fetched_uids a0 = []" "posted a0 = []"
    using stop_result by blast
  with assms show ?thesis
    by (auto simp: wait_poll_def split: if_splits option.splits)
qed

subsection \<open>One cycle and the loop\<close>

lemma new_messages_above: "\<forall>uid \<in> set (sort (new_messages all_messages c)). c < uid"
  by (simp add: new_messages_def)

lemma poll_result:
  assumes "poll e (m, n) = (x, (m', n'), a)"
  shows "last_uid m \<le> last_uid m' \<and> above (last_uid m) a \<and> (running m' \<longrightarrow> running m) \<and>
         (x \<noteq> None \<longrightarrow> m' = m \<and> n' = n \<and> fetched_uids a = [] \<and> posted a = [])"
proof (cases "client m")
  case None
  with assms show ?thesis by (simp add: poll_def above_silent)
next
  case (Some cl)
  show ?thesis
  proof (cases "noop_out e")
    case (Some ex)
    with \<open>client m = Some cl\<close> assms show ?thesis by (auto simp: poll_def above_silent)
  next
    case None
    show ?thesis
    proof (cases "search_out e")
      case (Raises ex)
      with None \<open>client m = Some cl\<close> assms show ?thesis by (auto simp: poll_def above_silent)
    next
      case (Returns all_messages)
      let ?new = "new_messages all_messages (last_uid m)"
      obtain m1 n1 a1 where b: "(if ?new \<noteq> [] then process_batch e (sort ?new) (m, n)
            else ((m, n), [Print ''No new emails found''])) = ((m1, n1), a1)"
        by (cases "(if ?new \<noteq> [] then process_batch e (sort ?new) (m, n)
            else ((m, n), [Print ''No new emails found'']))") auto
      have b1: "last_uid m \<le> last_uid m1 \<and> above (last_uid m) a1 \<and> (running m1 \<longrightarrow> running m)"
      proof (cases "?new \<noteq> []")
        case True
        with b have "process_batch e (sort ?new) (m, n) = ((m1, n1), a1)" by simp
        from process_batch_result[OF this new_messages_above] show ?thesis .
      next
        case False
        with b show ?thesis by (auto simp: above_silent)
      qed
      obtain m2 a2 where w: "wait_poll e m1 = (m2, a2)" by (cases "wait_poll e m1") auto
      note w1 = wait_poll_result[OF w]
      from Returns None \<open>client m = Some cl\<close> assms b w
      have r: "x = None" "m' = m2" "a = [ImapNoop, ImapSearch] @ a1 @ a2"
        by (auto simp: poll_def)
      have "above (last_uid m) ([ImapNoop, ImapSearch] @ a1 @ a2)"
        using b1 w1 by (intro above_append) (auto simp: above_silent)
      with r b1 w1 show ?thesis by auto
    qed
  qed
qed

lemma cycle_result:
  assumes "cycle e (m, n) = ((m', n'), a)"
  shows "last_uid m \<le> last_uid m' \<and> above (last_uid m) a \<and> (running m' \<longrightarrow> running m)"
proof -
  obtain x m1 n1 a1 where p: "poll e (m, n) = (x, (m1, n1), a1)"
    by (cases "poll e (m, n)") auto
  note p1 = poll_result[OF p]
  show ?thesis
  proof (cases x)
    case None
    with assms p p1 show ?thesis by (auto simp: cycle_def)
  next
    case (Some ex)
    with p1 have eq: "m1 = m" "n1 = n" and s1: "fetched_uids a1 = []" "posted a1 = []" by auto
    show ?thesis
    proof (cases "is_transient ex")
      case True
      obtain a2 where d: "disconnect e m = (m\<lparr>client := None\<rparr>, a2)"
        and s2: "fetched_uids a2 = []" "posted a2 = []"
        using disconnect_result by blast
      obtain ok m3 a3 where c: "connect e (m\<lparr>client := None\<rparr>) = (ok, m3, a3)"
        by (cases "connect e (m\<lparr>client := None\<rparr>)") auto
      note c1 = connect_result[OF c]
      from assms p Some eq True d c
      have "m' = m3" "a = a1 @ [Print ''Transient IMAP/SSL error - reconnecting''] @ a2 @ [Sleep 5] @ a3 @
              (if ok then [] else [Sleep 10])"
        by (auto simp: cycle_def)
      with c1 s1 s2 show ?thesis by (auto simp: above_silent)
    next
      case False
      obtain line where u: "update_status e m False (Some (exn_str ex)) None =
          (m, [Put (status_data False (Some (exn_str ex)) None), Print line])"
        using update_status_result by blast
      from assms p Some eq False u
      have "m' = m" "a = a1 @ [Print ''Error in monitoring loop''] @
              [Put (status_data False (Some (exn_str ex)) None), Print line] @ [Sleep 10]"
        by (auto simp: cycle_def)
      with s1 show ?thesis by (auto simp: above_silent)
    qed
  qed
qed

lemma run_loop_result:
  assumes "run_loop es (m, n) = ((m', n'), a)"
  shows "last_uid m \<le> last_uid m' \<and> above (last_uid m) a"
  using assms
proof (induction es arbitrary: m n m' n' a)
  case Nil
  then show ?case by (simp add: above_silent)
next
  case (Cons e es)
  obtain a0 where d: "deliver_stop (stop_head e) e m =
      (if stop_head e then m\<lparr>running := False\<rparr> else m, a0)"
    and s0: "fetched_uids a0 = []" "posted a0 = []"
    using deliver_stop_result by blast
  let ?m = "if stop_head e then m\<lparr>running := False\<rparr> else m"
  have lm: "last_uid ?m = last_uid m" by simp
  show ?case
  proof (cases "running ?m")
    case False
    with Cons.prems d have "m' = ?m" "a = a0" by auto
    with lm s0 show ?thesis by (simp add: above_silent)
  next
    case True
    obtain m1 n1 a1 where c: "cycle e (?m, n) = ((m1, n1), a1)"
      by (cases "cycle e (?m, n)") auto
    from cycle_result[OF c] lm
    have c1: "last_uid m \<le> last_uid m1" "above (last_uid m) a1" by auto
    obtain m2 n2 a2 where r: "run_loop es (m1, n1) = ((m2, n2), a2)"
      by (cases "run_loop es (m1, n1)") auto
    from Cons.IH[OF r] have r1: "last_uid m1 \<le> last_uid m2" "above (last_uid m1) a2" by auto
    from True Cons.prems d c r have "m' = m2" "a = a0 @ a1 @ a2" by auto
    moreover have "above (last_uid m) (a0 @ a1 @ a2)"
      using s0 c1 r1 by (intro above_append) (auto simp: above_silent intro: above_mono)
    ultimately show ?thesis using c1 r1 by auto
  qed
qed

subsection \<open>Identifiers at or below the cursor\<close>


lemma digit_val_digit_char: "d < 10 \<Longrightarrow> digit_val (digit_char d) = d"
proof -
  assume "d < 10"
  then consider "d = 0" | "d = 1" | "d = 2" | "d = 3" | "d = 4" | "d = 5" | "d = 6" | "d = 7"
    | "d = 8" | "d = 9" by atomize_elim arith
  then show ?thesis by cases (simp_all add: digit_val_def digit_char_def)
qed

lemma str_nat_value: "foldl (\<lambda>acc ch. 10 * acc + digit_val ch) 0 (str_nat n) = n"
proof (induction n rule: str_nat.induct)
  case (1 n)
  show ?case
  proof (cases "n < 10")
    case True
    then show ?thesis by (subst str_nat.simps) (simp add: digit_val_digit_char)
  next
    case False
    with 1 have "foldl (\<lambda>acc ch. 10 * acc + digit_val ch) 0 (str_nat (n div 10)) = n div 10" by simp
    with False show ?thesis
      by (subst str_nat.simps) (simp add: digit_val_digit_char)
  qed
qed

lemma str_nat_inject:
  assumes "str_nat a = str_nat b"
  shows "a = b"
proof -
  have "a = foldl (\<lambda>acc ch. 10 * acc + digit_val ch) 0 (str_nat a)"
    by (simp only: str_nat_value)
  also have "\<dots> = foldl (\<lambda>acc ch. 10 * acc + digit_val ch) 0 (str_nat b)"
    by (simp only: assms)
  also have "\<dots> = b" by (rule str_nat_value)
  finally show ?thesis .
qed

lemma above_excludes:
  assumes "above c a" and "uid \<le> c"
  shows "uid \<notin> set (fetched_uids a) \<and> (\<forall>ent \<in> set (posted a). entry_uid ent \<noteq> str_nat uid)"
proof -
  from assms have f: "uid \<notin> set (fetched_uids a)" by (auto simp: above_def list_all_iff)
  have "\<forall>ent \<in> set (posted a). entry_uid ent \<noteq> str_nat uid"
  proof
    fix ent assume "ent \<in> set (posted a)"
    with assms(1) obtain u where "u \<in> set (fetched_uids a)" "entry_uid ent = str_nat u"
      by (auto simp: above_def list_all_iff list_ex_iff)
    with f show "entry_uid ent \<noteq> str_nat uid" using str_nat_inject by auto
  qed
  with f show ?thesis by simp
qed

lemma baseline_ge: "uid \<in> set all_messages \<Longrightarrow> uid \<le> baseline all_messages"
  by (auto simp: baseline_def)

lemma start_finally_result:
  assumes "start_finally e m = (m', a)"
  shows "last_uid m' = last_uid m \<and> \<not> running m' \<and> fetched_uids a = [] \<and> posted a = []"
proof -
  obtain a1 where d: "disconnect e m = (m\<lparr>client := None\<rparr>, a1)"
    and s1: "fetched_uids a1 = []" "posted a1 = []"
    using disconnect_result by blast
  obtain line where u: "update_status e (m\<lparr>client := None, running := False\<rparr>) False None None =
      (m\<lparr>client := None, running := False\<rparr>, [Put (status_data False None None), Print line])"
    using update_status_result by blast
  from assms d u s1 show ?thesis by (auto simp: start_finally_def)
qed

lemma run_loop_stopped: "\<not> running m \<Longrightarrow> fst (run_loop es (m, n)) = (m, n)"
proof (cases es)
  case Nil
  then show ?thesis by simp
next
  case (Cons e es')
  assume nr: "\<not> running m"
  obtain a0 where d: "deliver_stop (stop_head e) e m =
      (if stop_head e then m\<lparr>running := False\<rparr> else m, a0)"
    using deliver_stop_result by blast
  from nr have "(if stop_head e then m\<lparr>running := False\<rparr> else m) = m" by simp
  with d nr Cons show ?thesis by simp
qed

lemma run_loop_append:
  "fst (run_loop (es @ es') st) = fst (run_loop es' (fst (run_loop es st)))"
proof (induction es arbitrary: st)
  case Nil
  then show ?case by simp
next
  case (Cons e es)
  obtain m n where st: "st = (m, n)" by (cases st)
  obtain a0 where d: "deliver_stop (stop_head e) e m =
      (if stop_head e then m\<lparr>running := False\<rparr> else m, a0)"
    using deliver_stop_result by blast
  let ?m = "if stop_head e then m\<lparr>running := False\<rparr> else m"
  show ?case
  proof (cases "running ?m")
    case False
    with st d have "fst (run_loop (e # es) st) = (?m, n)"
      and "fst (run_loop ((e # es) @ es') st) = (?m, n)" by auto
    with False run_loop_stopped[of ?m es' n] show ?thesis by simp
  next
    case True
    obtain st1 a1 where c: "cycle e (?m, n) = (st1, a1)" by (cases "cycle e (?m, n)")
    from True st d c have "fst (run_loop ((e # es) @ es') st) = fst (run_loop (es @ es') st1)"
      and "fst (run_loop (e # es) st) = fst (run_loop es st1)"
      by (auto split: prod.splits)
    with Cons.IH[of st1] show ?thesis by simp
  qed
qed

lemma run_loop_cursor_mono:
  "last_uid (fst st) \<le> last_uid (fst (fst (run_loop es st)))"
proof -
  obtain m n where st: "st = (m, n)" by (cases st)
  obtain m' n' a where r: "run_loop es (m, n) = ((m', n'), a)"
    by (cases "run_loop es (m, n)") auto
  from run_loop_result[OF r] st r show ?thesis by simp
qed

lemma run_loop_above: "above (last_uid (fst st)) (snd (run_loop es st))"
proof -
  obtain m n where st: "st = (m, n)" by (cases st)
  obtain m' n' a where r: "run_loop es (m, n) = ((m', n'), a)"
    by (cases "run_loop es (m, n)") auto
  from run_loop_result[OF r] st r show ?thesis by simp
qed

subsection \<open>\<open>start\<close>\<close>

lemma connect_connected:
  "connect_out e = Connected s \<Longrightarrow>
   connect e m = (True, m\<lparr>client := Some s\<rparr>, [ImapConnect, Print ''Connected''])"
  by (simp add: connect_def)

lemma start_run:
  assumes "\<not> running m" and "connect_out e0 = Connected s"
    and "search_out e0 = Returns all_messages"
    and "run_loop es (m\<lparr>running := True, client := Some s,
           last_uid := baseline all_messages\<rparr>, 0) = ((m3, n3), a3)"
  shows "\<exists>a0 a4. start e0 es ef m =
            (if running m3 then m3 else fst (start_finally ef m3), a0 @ a3 @ a4) \<and>
          fetched_uids a0 = [] \<and> posted a0 = [] \<and> fetched_uids a4 = [] \<and> posted a4 = []"
proof -
  obtain line where u: "update_status e0 (m\<lparr>running := True\<rparr>) True None None =
      (m\<lparr>running := True\<rparr>, [Put (status_data True None None), Print line])"
    using update_status_result by blast
  note c = connect_connected[OF assms(2), of "m\<lparr>running := True\<rparr>"]
  have t: "start_try e0 es (m\<lparr>running := True, client := Some s\<rparr>) =
      (\<not> running m3, m3, [ImapSearch, Print ''Monitoring from UID''] @ a3)"
    using assms(3,4) by (simp add: start_try_def)
  let ?a0 = "[Print ''Starting email monitor...'', Put (status_data True None None), Print line,
      ImapConnect, Print ''Connected'', ImapSearch, Print ''Monitoring from UID'']"
  show ?thesis
  proof (cases "running m3")
    case True
    with assms(1) u c t have "start e0 es ef m = (m3, ?a0 @ a3 @ [])"
      by (simp add: start_def)
    with True show ?thesis by (intro exI[of _ ?a0] exI[of _ "[]"]) simp
  next
    case False
    obtain m4 a4 where f: "start_finally ef m3 = (m4, a4)" by (cases "start_finally ef m3")
    note f1 = start_finally_result[OF f]
    from False assms(1) u c t f have "start e0 es ef m = (m4, ?a0 @ a3 @ a4)"
      by (simp add: start_def)
    with False f f1 show ?thesis by (intro exI[of _ ?a0] exI[of _ a4]) simp
  qed
qed

lemma start_no_run:
  assumes "running m \<or> (\<forall>s. connect_out e0 \<noteq> Connected s) \<or>
           (\<forall>all_messages. search_out e0 \<noteq> Returns all_messages)"
  shows "fetched_uids (snd (start e0 es ef m)) = [] \<and> posted (snd (start e0 es ef m)) = []"
proof (cases "running m")
  case True
  then show ?thesis by (simp add: start_def)
next
  case nr: False
  obtain line where u: "update_status e0 (m\<lparr>running := True\<rparr>) True None None =
      (m\<lparr>running := True\<rparr>, [Put (status_data True None None), Print line])"
    using update_status_result by blast
  obtain ok m2 a2 where c: "connect e0 (m\<lparr>running := True\<rparr>) = (ok, m2, a2)"
    by (cases "connect e0 (m\<lparr>running := True\<rparr>)") auto
  note c1 = connect_result[OF c]
  show ?thesis
  proof (cases ok)
    case False
    with nr u c have "start e0 es ef m = (m2\<lparr>running := False\<rparr>,
        [Print ''Starting email monitor...''] @ [Put (status_data True None None), Print line] @ a2)"
      by (simp add: start_def)
    with c1 show ?thesis by simp
  next
    case True
    with c1 assms nr obtain ex where r: "search_out e0 = Raises ex" and cl: "client m2 \<noteq> None"
      by (cases "search_out e0") auto
    obtain line' where u': "update_status e0 m2 False (Some (exn_str ex)) None =
        (m2, [Put (status_data False (Some (exn_str ex)) None), Print line'])"
      using update_status_result by blast
    obtain m4 a4 where f: "start_finally ef m2 = (m4, a4)" by (cases "start_finally ef m2")
    note f1 = start_finally_result[OF f]
    from cl r u' have "start_try e0 es m2 = (True, m2,
        [ImapSearch, Print ''Critical error in email monitor''] @
        [Put (status_data False (Some (exn_str ex)) None), Print line'])"
      by (auto simp: start_try_def)
    with nr u c True f have "start e0 es ef m = (m4, [Print ''Starting email monitor...''] @
        [Put (status_data True None None), Print line] @ a2 @
        ([ImapSearch, Print ''Critical error in email monitor''] @
         [Put (status_data False (Some (exn_str ex)) None), Print line']) @ a4)"
      by (simp add: start_def)
    with c1 f1 show ?thesis by simp
  qed
qed

lemma start_above:
  assumes "search_out e0 = Returns all_messages"
  shows "above (baseline all_messages) (snd (start e0 es ef m))"
proof (cases "running m \<or> (\<forall>s. connect_out e0 \<noteq> Connected s)")
  case True
  then have "fetched_uids (snd (start e0 es ef m)) = [] \<and> posted (snd (start e0 es ef m)) = []"
    by (intro start_no_run) auto
  then show ?thesis by (simp add: above_silent)
next
  case False
  then obtain s where nr: "\<not> running m" and s: "connect_out e0 = Connected s" by auto
  let ?st = "(m\<lparr>running := True, client := Some s, last_uid := baseline all_messages\<rparr>, 0::nat)"
  obtain m3 n3 a3 where r: "run_loop es ?st = ((m3, n3), a3)"
    by (cases "run_loop es ?st") auto
  from run_loop_result[OF r] have ab: "above (baseline all_messages) a3" by simp
  from start_run[OF nr s assms r] obtain a0 a4 where
    "snd (start e0 es ef m) = a0 @ a3 @ a4" "fetched_uids a0 = []" "posted a0 = []"
    "fetched_uids a4 = []" "posted a4 = []" by (metis snd_conv)
  with ab show ?thesis by (auto intro!: above_append simp: above_silent)
qed

lemma start_cursor:
  assumes "\<not> running m" and "connect_out e0 = Connected s"
    and "search_out e0 = Returns all_messages"
  shows "last_uid (fst (start e0 es ef m)) =
         last_uid (fst (fst (run_loop es (m\<lparr>running := True, client := Some s,
           last_uid := baseline all_messages\<rparr>, 0))))"
proof -
  let ?st = "(m\<lparr>running := True, client := Some s, last_uid := baseline all_messages\<rparr>, 0::nat)"
  obtain m3 n3 a3 where r: "run_loop es ?st = ((m3, n3), a3)"
    by (cases "run_loop es ?st") auto
  obtain m4 a4 where f: "start_finally ef m3 = (m4, a4)" by (cases "start_finally ef m3")
  note f1 = start_finally_result[OF f]
  from start_run[OF assms r, of ef] have "fst (start e0 es ef m) = (if running m3 then m3 else m4)"
    using f by auto
  with f1 r show ?thesis by simp
qed

subsection \<open>The running flag\<close>

lemma handle_uid_running:
  assumes "handle_uid e uid (m, n) = (f, (m', n'), a)" and "\<not> stop_before e uid"
  shows "running m' = running m"
proof (cases "running m \<and> client m \<noteq> None")
  case False
  with assms show ?thesis
    by (auto simp: handle_uid_def deliver_stop_def split: if_splits option.splits)
next
  case True
  then obtain cl where "running m" "client m = Some cl" by auto
  from handle_uid_advance[OF this assms(2), of n] assms(1) show ?thesis
    by (auto split: outcome.splits fetched.splits prod.splits)
qed

lemma process_batch_running:
  assumes "process_batch e uids (m, n) = ((m', n'), a)" and "\<forall>uid. \<not> stop_before e uid"
  shows "running m' = running m"
  using assms
proof (induction uids arbitrary: m n m' n' a)
  case Nil
  then show ?case by simp
next
  case (Cons uid uids)
  obtain f m1 n1 a1 where h: "handle_uid e uid (m, n) = (f, (m1, n1), a1)"
    by (cases "handle_uid e uid (m, n)") auto
  from handle_uid_running[OF h] Cons.prems(2) have h1: "running m1 = running m" by simp
  show ?case
  proof (cases f)
    case Break
    with Cons.prems(1) h h1 show ?thesis by auto
  next
    case Next
    obtain m2 n2 a2 where b: "process_batch e uids (m1, n1) = ((m2, n2), a2)"
      by (cases "process_batch e uids (m1, n1)") auto
    from Cons.IH[OF b Cons.prems(2)] h1 Next Cons.prems(1) h b show ?thesis by auto
  qed
qed

lemma poll_running:
  assumes "poll e (m, n) = (x, (m', n'), a)" and "\<forall>uid. \<not> stop_before e uid"
    and "stop_wait e = None"
  shows "running m' = running m"
proof (cases "\<exists>all_messages. client m \<noteq> None \<and> noop_out e = None \<and> search_out e = Returns all_messages")
  case False
  with assms(1) show ?thesis
    by (auto simp: poll_def split: option.splits outcome.splits)
next
  case True
  then obtain cl all_messages where c: "client m = Some cl" "noop_out e = None"
    "search_out e = Returns all_messages" by auto
  let ?new = "new_messages all_messages (last_uid m)"
  obtain m1 n1 a1 where b: "(if ?new \<noteq> [] then process_batch e (sort ?new) (m, n)
        else ((m, n), [Print ''No new emails found''])) = ((m1, n1), a1)"
    by (cases "(if ?new \<noteq> [] then process_batch e (sort ?new) (m, n)
        else ((m, n), [Print ''No new emails found'']))") auto
  have b1: "running m1 = running m"
    using b process_batch_running[OF _ assms(2)] by (auto split: if_splits)
  have "wait_poll e m1 = (m1, if running m1 then replicate 30 (Sleep 1) else [])"
    using assms(3) by (simp add: wait_poll_def)
  with c b assms(1) have "m' = m1" by (auto simp: poll_def)
  with b1 show ?thesis by simp
qed

lemma cycle_running:
  assumes "\<forall>uid. \<not> stop_before e uid" and "stop_wait e = None"
  shows "running (fst (fst (cycle e (m, n)))) = running m"
proof -
  obtain m' n' a where c: "cycle e (m, n) = ((m', n'), a)" by (cases "cycle e (m, n)") auto
  obtain x m1 n1 a1 where p: "poll e (m, n) = (x, (m1, n1), a1)"
    by (cases "poll e (m, n)") auto
  note p1 = poll_running[OF p assms] and p2 = poll_result[OF p]
  have "running m' = running m"
  proof (cases x)
    case None
    with c p p1 show ?thesis by (auto simp: cycle_def)
  next
    case (Some ex)
    with p2 have eq: "m1 = m" "n1 = n" by auto
    show ?thesis
    proof (cases "is_transient ex")
      case True
      obtain a2 where d: "disconnect e m = (m\<lparr>client := None\<rparr>, a2)"
        using disconnect_result by blast
      obtain ok m3 a3 where cn: "connect e (m\<lparr>client := None\<rparr>) = (ok, m3, a3)"
        by (cases "connect e (m\<lparr>client := None\<rparr>)") auto
      from connect_result[OF cn] c p Some eq True d cn show ?thesis
        by (auto simp: cycle_def)
    next
      case False
      obtain line where u: "update_status e m False (Some (exn_str ex)) None =
          (m, [Put (status_data False (Some (exn_str ex)) None), Print line])"
        using update_status_result by blast
      from c p Some eq False u show ?thesis by (auto simp: cycle_def)
    qed
  qed
  with c show ?thesis by simp
qed

lemma run_loop_step:
  assumes "running m" and "\<not> stop_head e"
  shows "fst (run_loop (e # es) (m, n)) = fst (run_loop es (fst (cycle e (m, n))))"
  using assms by (simp add: deliver_stop_def split: prod.splits)

section \<open>The cursor\<close>

text \<open>
  C2. The cursor never decreases: not over the handling of one identifier, not over a
  cycle, not over any stretch of the loop (and a longer stretch of the same run ends
  with a cursor at least as large), not over the baseline of a new monitor; after the
  baseline it stays at or above the baseline. The identifiers selected at a poll are
  above the cursor of that moment, and an identifier at or below the cursor is neither
  fetched nor handed over in the rest of the run.
\<close>

theorem cursor_monotone:
  "last_uid m \<le> last_uid (fst (fst (snd (handle_uid e uid (m, n))))) \<and>
   last_uid m \<le> last_uid (fst (fst (cycle e (m, n)))) \<and>
   last_uid m \<le> last_uid (fst (fst (run_loop es (m, n)))) \<and>
   last_uid (fst (fst (run_loop es (m, n)))) \<le> last_uid (fst (fst (run_loop (es @ es') (m, n)))) \<and>
   (\<forall>uid \<in> set (new_messages all_messages (last_uid m)). last_uid m < uid) \<and>
   (\<forall>uid. uid \<le> last_uid m \<longrightarrow>
      uid \<notin> set (fetched_uids (snd (run_loop es (m, n)))) \<and>
      (\<forall>ent \<in> set (posted (snd (run_loop es (m, n)))). entry_uid ent \<noteq> str_nat uid)) \<and>
   (fst (init cfg) = Inr m0 \<longrightarrow> last_uid m0 \<le> last_uid (fst (start e0 es ef m0))) \<and>
   (\<not> running m0 \<and> connect_out e0 = Connected s \<and> search_out e0 = Returns all_messages \<longrightarrow>
      baseline all_messages \<le> last_uid (fst (start e0 es ef m0)) \<and>
      last_uid (fst (start e0 es ef m0)) \<le> last_uid (fst (start e0 (es @ es') ef m0)))"
proof (intro conjI allI impI ballI)
  obtain f m' n' a where h: "handle_uid e uid (m, n) = (f, (m', n'), a)"
    by (cases "handle_uid e uid (m, n)") auto
  from handle_uid_result[OF h] h
  show "last_uid m \<le> last_uid (fst (fst (snd (handle_uid e uid (m, n)))))" by simp
next
  obtain m' n' a where c: "cycle e (m, n) = ((m', n'), a)" by (cases "cycle e (m, n)") auto
  from cycle_result[OF c] c show "last_uid m \<le> last_uid (fst (fst (cycle e (m, n))))" by simp
next
  from run_loop_cursor_mono[of "(m, n)" es]
  show "last_uid m \<le> last_uid (fst (fst (run_loop es (m, n))))" by simp
next
  from run_loop_cursor_mono[of "fst (run_loop es (m, n))" es']
  show "last_uid (fst (fst (run_loop es (m, n)))) \<le> last_uid (fst (fst (run_loop (es @ es') (m, n))))"
    by (simp add: run_loop_append)
next
  fix uid assume "uid \<in> set (new_messages all_messages (last_uid m))"
  then show "last_uid m < uid" by (simp add: new_messages_def)
next
  fix uid assume u: "uid \<le> last_uid m"
  from run_loop_above[of "(m, n)" es] have "above (last_uid m) (snd (run_loop es (m, n)))" by simp
  from above_excludes[OF this u]
  show "uid \<notin> set (fetched_uids (snd (run_loop es (m, n))))" by simp
next
  fix uid ent assume u: "uid \<le> last_uid m" and p: "ent \<in> set (posted (snd (run_loop es (m, n))))"
  from run_loop_above[of "(m, n)" es] have "above (last_uid m) (snd (run_loop es (m, n)))" by simp
  from above_excludes[OF this u] p show "entry_uid ent \<noteq> str_nat uid" by simp
next
  assume "fst (init cfg) = Inr m0"
  then have "last_uid m0 = 0" by (auto simp: init_def split: if_splits)
  then show "last_uid m0 \<le> last_uid (fst (start e0 es ef m0))" by simp
next
  assume a: "\<not> running m0 \<and> connect_out e0 = Connected s \<and> search_out e0 = Returns all_messages"
  let ?st = "(m0\<lparr>running := True, client := Some s, last_uid := baseline all_messages\<rparr>, 0::nat)"
  from a have c: "last_uid (fst (start e0 es ef m0)) = last_uid (fst (fst (run_loop es ?st)))"
    by (intro start_cursor) auto
  with run_loop_cursor_mono[of ?st es]
  show "baseline all_messages \<le> last_uid (fst (start e0 es ef m0))" by simp
next
  assume a: "\<not> running m0 \<and> connect_out e0 = Connected s \<and> search_out e0 = Returns all_messages"
  let ?st = "(m0\<lparr>running := True, client := Some s, last_uid := baseline all_messages\<rparr>, 0::nat)"
  from a have c: "last_uid (fst (start e0 es ef m0)) = last_uid (fst (fst (run_loop es ?st)))"
    and c': "last_uid (fst (start e0 (es @ es') ef m0)) = last_uid (fst (fst (run_loop (es @ es') ?st)))"
    by (intro start_cursor; auto)+
  from run_loop_cursor_mono[of "fst (run_loop es ?st)" es'] c c'
  show "last_uid (fst (start e0 es ef m0)) \<le> last_uid (fst (start e0 (es @ es') ef m0))"
    by (simp add: run_loop_append)
qed

theorem cursor_monotone_witness:
  "fst (init ex_config) = Inr ex_fresh \<and> \<not> running ex_fresh \<and>
   connect_out ex_env_baseline = Connected 1 \<and> search_out ex_env_baseline = Returns [3, 10, 7] \<and>
   baseline [3, 10, 7] = 10 \<and>
   last_uid (fst (start ex_env_baseline [] ex_env ex_fresh)) = 10 \<and>
   last_uid (fst (start ex_env_baseline ([] @ [ex_env_new]) ex_env ex_fresh)) = 11 \<and>
   (10::nat) \<le> last_uid ex_monitor \<and>
   10 \<notin> set (fetched_uids (snd (run_loop [ex_env_new] (ex_monitor, 0)))) \<and>
   fetched_uids (snd (run_loop [ex_env_new] (ex_monitor, 0))) = [11]"
proof -
  have a: "fst (init ex_config) = Inr ex_fresh" "\<not> running ex_fresh"
    "connect_out ex_env_baseline = Connected 1" "search_out ex_env_baseline = Returns [3, 10, 7]"
    "baseline [3, 10, 7] = 10" "(10::nat) \<le> last_uid ex_monitor"
    by code_simp+
  have b: "last_uid (fst (start ex_env_baseline [] ex_env ex_fresh)) = 10"
    "last_uid (fst (start ex_env_baseline ([] @ [ex_env_new]) ex_env ex_fresh)) = 11"
    "fetched_uids (snd (run_loop [ex_env_new] (ex_monitor, 0))) = [11]"
    by code_simp+
  from cursor_monotone [of ex_monitor ex_env 10 0 "[ex_env_new]" "[]" "[3, 10, 7]" ex_config
      ex_fresh ex_env_baseline ex_env 1] a b
  show ?thesis by simp
qed

text \<open>
  C3. When the search at the start returns the identifiers \<open>all_messages\<close>, the cursor
  is set to their maximum, or to 0 when there are none; and no identifier of
  \<open>all_messages\<close> is fetched or handed to the API during the run, however long.
\<close>

theorem baseline_exclusion:
  assumes "search_out e0 = Returns all_messages"
  shows "(\<not> running m \<and> connect_out e0 = Connected s \<longrightarrow>
            last_uid (fst (start e0 [] ef m)) =
              (if all_messages = [] then 0 else Max (set all_messages))) \<and>
         (\<forall>uid \<in> set all_messages.
            uid \<notin> set (fetched_uids (snd (start e0 es ef m))) \<and>
            (\<forall>ent \<in> set (posted (snd (start e0 es ef m))). entry_uid ent \<noteq> str_nat uid))"
proof (intro conjI impI ballI)
  assume a: "\<not> running m \<and> connect_out e0 = Connected s"
  with assms have "last_uid (fst (start e0 [] ef m)) =
      last_uid (fst (fst (run_loop [] (m\<lparr>running := True, client := Some s,
        last_uid := baseline all_messages\<rparr>, 0))))"
    by (intro start_cursor) auto
  then show "last_uid (fst (start e0 [] ef m)) =
      (if all_messages = [] then 0 else Max (set all_messages))"
    by (simp add: baseline_def)
next
  fix uid assume u: "uid \<in> set all_messages"
  from above_excludes[OF start_above[OF assms] baseline_ge[OF u]]
  show "uid \<notin> set (fetched_uids (snd (start e0 es ef m)))" by simp
next
  fix uid ent assume u: "uid \<in> set all_messages"
    and p: "ent \<in> set (posted (snd (start e0 es ef m)))"
  from above_excludes[OF start_above[OF assms] baseline_ge[OF u]] p
  show "entry_uid ent \<noteq> str_nat uid" by simp
qed

theorem baseline_exclusion_witness:
  "search_out ex_env_baseline = Returns [3, 10, 7] \<and> \<not> running ex_fresh \<and>
   connect_out ex_env_baseline = Connected 1 \<and> 10 \<in> set [3, 10, 7 :: nat] \<and>
   last_uid (fst (start ex_env_baseline [] ex_env ex_fresh)) = 10 \<and>
   map entry_uid (posted (snd (start ex_env_baseline [ex_env_new] ex_env ex_fresh))) = [''11''] \<and>
   10 \<notin> set (fetched_uids (snd (start ex_env_baseline [ex_env_new] ex_env ex_fresh)))"
proof -
  have a: "search_out ex_env_baseline = Returns [3, 10, 7]" "\<not> running ex_fresh"
    "connect_out ex_env_baseline = Connected 1"
    by code_simp+
  have b: "last_uid (fst (start ex_env_baseline [] ex_env ex_fresh)) = 10"
    "map entry_uid (posted (snd (start ex_env_baseline [ex_env_new] ex_env ex_fresh))) = [''11'']"
    by code_simp+
  from baseline_exclusion [OF a(1), of ex_fresh 1 ex_env "[ex_env_new]"]
  have "10 \<notin> set (fetched_uids (snd (start ex_env_baseline [ex_env_new] ex_env ex_fresh)))"
    by simp
  with a b show ?thesis by simp
qed

text \<open>
  C1 as stated fails. The hand-off of message 11 is answered with status 500, so
  \<open>process_new_email\<close> returns false; the cursor moves from 10 to 11 all the same, and
  11 is not among the new identifiers of the next poll.
\<close>

theorem failed_handoff_advances_cursor:
  "fst (process_new_email ex_env_reject ex_monitor 11 ex_msg) = False \<and>
   map entry_uid (posted (snd (cycle ex_env_reject (ex_monitor, 0)))) = [''11''] \<and>
   last_uid ex_monitor = 10 \<and>
   last_uid (fst (fst (cycle ex_env_reject (ex_monitor, 0)))) = 11 \<and>
   11 \<notin> set (new_messages [10, 11] (last_uid (fst (fst (cycle ex_env_reject (ex_monitor, 0))))))"
  by code_simp

text \<open>
  C1, amended. For an identifier reached in the loop with the flag set, whose fetch
  returns a message, the cursor becomes \<open>max(cursor, id)\<close> once \<open>process_new_email\<close>
  has returned, whether the hand-off succeeded (the request answered with 201) or not;
  success decides only whether the counter is incremented. The identifier is then at or
  below the cursor, so it is in no later set of new identifiers. The state is left as it
  was when the fetch raises or returns something that is not a message.
\<close>

theorem cursor_advance_after_processing:
  assumes "running m" and "client m = Some cl" and "\<not> stop_before e uid"
  shows "(\<forall>msg. fetch_out e uid = Returns (RawBytes msg) \<longrightarrow>
            last_uid (fst (fst (snd (handle_uid e uid (m, n))))) = max (last_uid m) uid \<and>
            snd (fst (snd (handle_uid e uid (m, n)))) =
              (if fst (process_new_email e m uid msg) then n + 1 else n) \<and>
            (fst (process_new_email e m uid msg) \<longleftrightarrow>
               (\<exists>ent. posted (snd (snd (process_new_email e m uid msg))) = [ent] \<and>
                      post_out e ent = Returns 201)) \<and>
            uid \<notin> set (new_messages all_messages
                         (last_uid (fst (fst (snd (handle_uid e uid (m, n)))))))) \<and>
         ((\<forall>msg. fetch_out e uid \<noteq> Returns (RawBytes msg)) \<longrightarrow>
            fst (snd (handle_uid e uid (m, n))) = (m, n))"
proof (intro conjI allI impI)
  fix msg assume f: "fetch_out e uid = Returns (RawBytes msg)"
  obtain ok m1 a1 where p: "process_new_email e m uid msg = (ok, m1, a1)"
    by (cases "process_new_email e m uid msg") auto
  from handle_uid_advance[OF assms, of n] f p
  have h: "handle_uid e uid (m, n) =
      (Next, (m\<lparr>last_uid := max (last_uid m) uid\<rparr>, if ok then n + 1 else n),
       [ImapFetch uid] @ a1 @ (if ok then snd (update_status e m True None (Some (n + 1))) else []))"
    by simp
  from h show "last_uid (fst (fst (snd (handle_uid e uid (m, n))))) = max (last_uid m) uid"
    by simp
  from h p show "snd (fst (snd (handle_uid e uid (m, n)))) =
      (if fst (process_new_email e m uid msg) then n + 1 else n)"
    by simp
  from process_new_email_result[OF p] p
  show "fst (process_new_email e m uid msg) \<longleftrightarrow>
      (\<exists>ent. posted (snd (snd (process_new_email e m uid msg))) = [ent] \<and>
             post_out e ent = Returns 201)"
    by simp
  from h show "uid \<notin> set (new_messages all_messages
                  (last_uid (fst (fst (snd (handle_uid e uid (m, n)))))))"
    by (simp add: new_messages_def)
next
  assume "\<forall>msg. fetch_out e uid \<noteq> Returns (RawBytes msg)"
  with handle_uid_advance[OF assms, of n]
  show "fst (snd (handle_uid e uid (m, n))) = (m, n)"
    by (auto split: outcome.splits fetched.splits)
qed

theorem cursor_advance_after_processing_witness:
  "running ex_monitor \<and> client ex_monitor = Some 1 \<and> \<not> stop_before ex_env_reject 11 \<and>
   fetch_out ex_env_reject 11 = Returns (RawBytes ex_msg) \<and>
   \<not> fst (process_new_email ex_env_reject ex_monitor 11 ex_msg) \<and>
   last_uid (fst (fst (snd (handle_uid ex_env_reject 11 (ex_monitor, 0))))) = 11 \<and>
   snd (fst (snd (handle_uid ex_env_reject 11 (ex_monitor, 0)))) = 0"
proof -
  have r: "running ex_monitor" and c: "client ex_monitor = Some 1"
    and s: "\<not> stop_before ex_env_reject 11"
    and f: "fetch_out ex_env_reject 11 = Returns (RawBytes ex_msg)"
    and p: "\<not> fst (process_new_email ex_env_reject ex_monitor 11 ex_msg)"
    and l: "last_uid ex_monitor = 10"
    by code_simp+
  from cursor_advance_after_processing [OF r c s, of 0 "[]"] f p l r c s show ?thesis by simp
qed

section \<open>Errors in a cycle\<close>

text \<open>
  C6 as stated fails. The keep-alive raises an error that is not transient; the status
  report is sent, and after ten seconds the next cycle runs: the flag is still set and no
  shutdown takes place.
\<close>

theorem fatal_error_does_not_exit:
  "poll ex_env_fault (ex_monitor, 0) = (Some (Exn OtherException ''boom''), (ex_monitor, 0), [ImapNoop]) \<and>
   \<not> is_transient (Exn OtherException ''boom'') \<and>
   running (fst (fst (cycle ex_env_fault (ex_monitor, 0)))) \<and>
   run_loop [ex_env_fault, ex_env] (ex_monitor, 0) =
     ((ex_monitor, 0),
      [ImapNoop, Print ''Error in monitoring loop'',
       Put \<lparr>isRunning = False, lastError = Some ''boom'', emailsProcessed = None\<rparr>,
       Print ''Status updated'', Sleep 10,
       ImapNoop, ImapSearch, Print ''No new emails found''] @ replicate 30 (Sleep 1)) \<and>
   running (fst (start ex_env [ex_env_fault, ex_env] ex_env ex_fresh)) \<and>
   ImapLogout \<notin> set (snd (start ex_env [ex_env_fault, ex_env] ex_env ex_fresh))"
  by code_simp

text \<open>
  C6, amended. When the \<open>try\<close> block of a cycle ends with an error that is not
  transient, the monitor reports \<open>isRunning = false\<close> with the text of the error (when
  it is not empty), sleeps ten seconds and leaves its state as it was; the loop then
  goes on with the next cycle.
\<close>

theorem fatal_error_reported_loop_continues:
  assumes "poll e (m, n) = (Some ex, st', a)" and "\<not> is_transient ex"
  shows "(\<exists>line. cycle e (m, n) =
            ((m, n),
             a @ [Print ''Error in monitoring loop'',
                  Put \<lparr>isRunning = False,
                       lastError = (if exn_str ex \<noteq> [] then Some (exn_str ex) else None),
                       emailsProcessed = None\<rparr>,
                  Print line, Sleep 10])) \<and>
         (running m \<and> \<not> stop_head e \<longrightarrow>
            fst (run_loop (e # es) (m, n)) = fst (run_loop es (m, n)))"
proof -
  obtain m1 n1 where st': "st' = (m1, n1)" by (cases st')
  from poll_result[OF assms(1)[unfolded st']] have eq: "m1 = m" "n1 = n" by auto
  obtain line where u: "update_status e m False (Some (exn_str ex)) None =
      (m, [Put (status_data False (Some (exn_str ex)) None), Print line])"
    using update_status_result by blast
  have d: "status_data False (Some (exn_str ex)) None =
      \<lparr>isRunning = False, lastError = (if exn_str ex \<noteq> [] then Some (exn_str ex) else None),
       emailsProcessed = None\<rparr>"
    by (simp add: status_data_def)
  from assms st' eq u d have c: "cycle e (m, n) =
      ((m, n), a @ [Print ''Error in monitoring loop'',
         Put \<lparr>isRunning = False, lastError = (if exn_str ex \<noteq> [] then Some (exn_str ex) else None),
              emailsProcessed = None\<rparr>, Print line, Sleep 10])"
    by (simp add: cycle_def)
  have "running m \<and> \<not> stop_head e \<longrightarrow> fst (run_loop (e # es) (m, n)) = fst (run_loop es (m, n))"
    using run_loop_step[of m e es n] c by simp
  with c show ?thesis by blast
qed

theorem fatal_error_reported_loop_continues_witness:
  "poll ex_env_fault (ex_monitor, 0) = (Some (Exn OtherException ''boom''), (ex_monitor, 0), [ImapNoop]) \<and>
   \<not> is_transient (Exn OtherException ''boom'') \<and> running ex_monitor \<and> \<not> stop_head ex_env_fault \<and>
   (\<exists>line. cycle ex_env_fault (ex_monitor, 0) =
      ((ex_monitor, 0),
       [ImapNoop, Print ''Error in monitoring loop'',
        Put \<lparr>isRunning = False, lastError = Some ''boom'', emailsProcessed = None\<rparr>,
        Print line, Sleep 10])) \<and>
   fst (run_loop [ex_env_fault, ex_env] (ex_monitor, 0)) = fst (run_loop [ex_env] (ex_monitor, 0))"
proof -
  have p: "poll ex_env_fault (ex_monitor, 0) =
      (Some (Exn OtherException ''boom''), (ex_monitor, 0), [ImapNoop])"
    and t: "\<not> is_transient (Exn OtherException ''boom'')"
    and r: "running ex_monitor" "\<not> stop_head ex_env_fault"
    by code_simp+
  from fatal_error_reported_loop_continues [OF p t, of "[ex_env]"] p t r show ?thesis by simp
qed

text \<open>
  C7 as stated fails. The fetch of message 11 times out, a transient error; the handler
  of the message loop catches it, and the cycle goes on to the wait without logout,
  delay of five seconds or new connection.
\<close>

theorem fetch_timeout_no_reconnect:
  "fetch_out ex_env_fetch_timeout 11 = Raises (Exn SocketTimeout ''timed out'') \<and>
   is_transient (Exn SocketTimeout ''timed out'') \<and>
   cycle ex_env_fetch_timeout (ex_monitor, 0) =
     ((ex_monitor, 0),
      [ImapNoop, ImapSearch, ImapFetch 11, Print ''Error processing email''] @
      replicate 30 (Sleep 1)) \<and>
   ImapLogout \<notin> set (snd (cycle ex_env_fetch_timeout (ex_monitor, 0))) \<and>
   Sleep 5 \<notin> set (snd (cycle ex_env_fetch_timeout (ex_monitor, 0))) \<and>
   ImapConnect \<notin> set (snd (cycle ex_env_fetch_timeout (ex_monitor, 0)))"
  by code_simp

text \<open>
  C7, amended. When the \<open>try\<close> block of a cycle ends with a transient error (raised by
  the keep-alive or by the search), the monitor logs out, sleeps five seconds, tries to
  connect again and sleeps ten more seconds when that fails; flag and cursor stay as they
  were. A transient error raised by the fetch of a message is caught by the handler of
  the message loop, which prints a line and goes on to the next identifier. In a cycle
  in which no call of \<open>stop\<close> arrives the flag stays as it was, whatever fails, and the
  loop goes on with the next cycle.
\<close>

theorem transient_error_reconnects:
  "(poll e (m, n) = (Some ex, st', a) \<and> is_transient ex \<longrightarrow>
      (\<exists>a1 ok m' a2.
         disconnect e m = (m\<lparr>client := None\<rparr>, a1) \<and>
         connect e (m\<lparr>client := None\<rparr>) = (ok, m', a2) \<and>
         (ok \<longleftrightarrow> (\<exists>s. connect_out e = Connected s)) \<and>
         cycle e (m, n) =
           ((m', n),
            a @ [Print ''Transient IMAP/SSL error - reconnecting''] @ a1 @ [Sleep 5] @ a2 @
            (if ok then [] else [Sleep 10])) \<and>
         a1 \<noteq> [] \<and> hd a1 = ImapLogout \<and> hd a2 = ImapConnect \<and>
         running m' = running m \<and> last_uid m' = last_uid m)) \<and>
   (running m \<and> client m = Some cl \<and> \<not> stop_before e uid \<and>
      fetch_out e uid = Raises ex \<longrightarrow>
      handle_uid e uid (m, n) = (Next, (m, n), [ImapFetch uid, Print ''Error processing email''])) \<and>
   ((\<forall>uid. \<not> stop_before e uid) \<and> stop_wait e = None \<longrightarrow>
      running (fst (fst (cycle e (m, n)))) = running m) \<and>
   (running m \<and> \<not> stop_head e \<longrightarrow>
      fst (run_loop (e # es) (m, n)) = fst (run_loop es (fst (cycle e (m, n)))))"
proof (intro conjI impI)
  assume h: "poll e (m, n) = (Some ex, st', a) \<and> is_transient ex"
  obtain m1 n1 where st': "st' = (m1, n1)" by (cases st')
  from h st' have p: "poll e (m, n) = (Some ex, (m1, n1), a)" by simp
  from poll_result[OF p] have eq: "m1 = m" "n1 = n" by auto
  from p have cl: "client m \<noteq> None" by (cases "client m") (auto simp: poll_def)
  then obtain c where c: "client m = Some c" by auto
  then have d: "disconnect e m = (m\<lparr>client := None\<rparr>, ImapLogout #
      (case logout_out e of None \<Rightarrow> [Print ''Disconnected from IMAP server'']
       | Some ex \<Rightarrow> [Print ''Error during disconnect'']))"
    by (simp add: disconnect_def)
  obtain ok m' a2 where cn: "connect e (m\<lparr>client := None\<rparr>) = (ok, m', a2)"
    by (cases "connect e (m\<lparr>client := None\<rparr>)") auto
  note c1 = connect_result[OF cn]
  have hd2: "hd a2 = ImapConnect"
    using cn by (auto simp: connect_def split: conn_out.splits prod.splits)
  from p eq have p': "poll e (m, n) = (Some ex, (m, n), a)" by simp
  from h have tr: "is_transient ex" by simp
  from tr p' d cn have cy: "cycle e (m, n) =
      ((m', n), a @ [Print ''Transient IMAP/SSL error - reconnecting''] @
        (ImapLogout # (case logout_out e of None \<Rightarrow> [Print ''Disconnected from IMAP server'']
           | Some ex \<Rightarrow> [Print ''Error during disconnect''])) @ [Sleep 5] @ a2 @
        (if ok then [] else [Sleep 10]))"
    by (simp add: cycle_def)
  from d cn c1 cy hd2
  show "\<exists>a1 ok m' a2.
         disconnect e m = (m\<lparr>client := None\<rparr>, a1) \<and>
         connect e (m\<lparr>client := None\<rparr>) = (ok, m', a2) \<and>
         (ok \<longleftrightarrow> (\<exists>s. connect_out e = Connected s)) \<and>
         cycle e (m, n) =
           ((m', n),
            a @ [Print ''Transient IMAP/SSL error - reconnecting''] @ a1 @ [Sleep 5] @ a2 @
            (if ok then [] else [Sleep 10])) \<and>
         a1 \<noteq> [] \<and> hd a1 = ImapLogout \<and> hd a2 = ImapConnect \<and>
         running m' = running m \<and> last_uid m' = last_uid m"
    by (intro exI[of _ "ImapLogout # (case logout_out e of None \<Rightarrow> [Print ''Disconnected from IMAP server'']
           | Some ex \<Rightarrow> [Print ''Error during disconnect''])"] exI[of _ ok] exI[of _ m'] exI[of _ a2]) simp
next
  assume "running m \<and> client m = Some cl \<and> \<not> stop_before e uid \<and> fetch_out e uid = Raises ex"
  then show "handle_uid e uid (m, n) = (Next, (m, n), [ImapFetch uid, Print ''Error processing email''])"
    using handle_uid_advance[of m cl e uid n] by simp
next
  assume "(\<forall>uid. \<not> stop_before e uid) \<and> stop_wait e = None"
  then show "running (fst (fst (cycle e (m, n)))) = running m"
    using cycle_running by blast
next
  assume "running m \<and> \<not> stop_head e"
  then show "fst (run_loop (e # es) (m, n)) = fst (run_loop es (fst (cycle e (m, n))))"
    using run_loop_step by blast
qed

theorem transient_error_reconnects_witness:
  "poll ex_env_timeout (ex_monitor, 0) =
     (Some (Exn SocketTimeout ''timed out''), (ex_monitor, 0), [ImapNoop]) \<and>
   is_transient (Exn SocketTimeout ''timed out'') \<and>
   cycle ex_env_timeout (ex_monitor, 0) =
     ((ex_monitor\<lparr>client := None\<rparr>, 0),
      [ImapNoop, Print ''Transient IMAP/SSL error - reconnecting'', ImapLogout,
       Print ''Disconnected from IMAP server'', Sleep 5, ImapConnect, Print ''Connection failed'',
       Put \<lparr>isRunning = False, lastError = Some ''unreachable'', emailsProcessed = None\<rparr>,
       Print ''Status updated'', Sleep 10]) \<and>
   running ex_monitor \<and> \<not> stop_head ex_env_timeout \<and>
   (\<forall>uid. \<not> stop_before ex_env_timeout uid) \<and> stop_wait ex_env_timeout = None \<and>
   running (fst (fst (cycle ex_env_timeout (ex_monitor, 0)))) \<and>
   fst (run_loop (ex_env_timeout # [ex_env]) (ex_monitor, 0)) =
     fst (run_loop [ex_env] (fst (cycle ex_env_timeout (ex_monitor, 0))))"
proof -
  have p: "poll ex_env_timeout (ex_monitor, 0) =
      (Some (Exn SocketTimeout ''timed out''), (ex_monitor, 0), [ImapNoop])"
    and t: "is_transient (Exn SocketTimeout ''timed out'')"
    and r: "running ex_monitor" "\<not> stop_head ex_env_timeout"
    and w: "stop_wait ex_env_timeout = None"
    by code_simp+
  have s: "\<forall>uid. \<not> stop_before ex_env_timeout uid"
    by (simp add: ex_env_timeout_def ex_env_def)
  have c: "cycle ex_env_timeout (ex_monitor, 0) =
     ((ex_monitor\<lparr>client := None\<rparr>, 0),
      [ImapNoop, Print ''Transient IMAP/SSL error - reconnecting'', ImapLogout,
       Print ''Disconnected from IMAP server'', Sleep 5, ImapConnect, Print ''Connection failed'',
       Put \<lparr>isRunning = False, lastError = Some ''unreachable'', emailsProcessed = None\<rparr>,
       Print ''Status updated'', Sleep 10])"
    by code_simp
  from transient_error_reconnects [of ex_env_timeout ex_monitor 0
      "Exn SocketTimeout ''timed out''" "(ex_monitor, 0)" "[ImapNoop]" 1 11 "[ex_env]"] p t r w s c
  show ?thesis by simp
qed

section \<open>The attachments of a message\<close>






end
